theory Spec2Isabelle
  imports Main "HOL-Library.Char_ord" "HOL-Library.List_Lexorder"
begin

section \<open>Convenience functions of zarr: a shallow embedding of \<open>zarr/convenience.py\<close>\<close>

text \<open>
  The theory embeds the copy engine of \<open>zarr/convenience.py\<close>: the progress writer
  \<open>_LogWriter\<close>, the flat copier \<open>copy_store\<close>, the node copier \<open>copy\<close>, \<open>copy_all\<close> and
  \<open>_copy\<close>, the read-through view \<open>LazyLoader\<close> and \<open>load\<close>.

  Python dictionaries are association lists in insertion order with distinct keys; a
  raised exception is a value of type \<open>error\<close>; the effects on files and callbacks are
  an event trace in a record \<open>world\<close> that every function takes and returns.
\<close>

subsection \<open>Exceptions\<close>

datatype error =
    LogTypeError        \<comment> \<open>\<open>TypeError('log must be a callable function, file path or file-like object')\<close>\<close>
  | NoNameTypeError     \<comment> \<open>\<open>TypeError('source has no name, please provide the `name` parameter')\<close>\<close>
  | KeyError            \<comment> \<open>a mapping was read at a key it does not hold\<close>
  | OpenFailed          \<comment> \<open>\<open>io.open\<close> raised\<close>
  | CallbackRaised      \<comment> \<open>the caller's log function raised\<close>
  | PathError           \<comment> \<open>\<open>normalize_storage_path\<close> raised\<close>
  | RegexError          \<comment> \<open>\<open>re.compile\<close> raised\<close>
  | Conflict            \<comment> \<open>the destination's creation method raised\<close>
  | KeywordTypeError    \<comment> \<open>\<open>TypeError\<close>: a call got two values for one keyword argument\<close>
  | AttributeError      \<comment> \<open>an object lacks the attribute read from it\<close>
  | NotAnArray          \<comment> \<open>\<open>grp[item][...]\<close> on something that is not an array\<close>
  | PathNotFound        \<comment> \<open>\<open>err_path_not_found\<close>: nothing at the path\<close>

subsection \<open>Strings and dictionaries\<close>

text \<open>\<open>s.startswith(p)\<close>.\<close>

fun startswith :: "string \<Rightarrow> string \<Rightarrow> bool" where
  "startswith s [] = True"
| "startswith [] (p # ps) = False"
| "startswith (c # s) (p # ps) = (c = p \<and> startswith s ps)"

text \<open>\<open>d[k] = v\<close> on a dictionary: an existing key keeps its place, a new key goes last.\<close>

fun setitem :: "('k \<times> 'v) list \<Rightarrow> 'k \<Rightarrow> 'v \<Rightarrow> ('k \<times> 'v) list" where
  "setitem [] k v = [(k, v)]"
| "setitem ((k', v') # d) k v = (if k' = k then (k, v) # d else (k', v') # setitem d k v)"

text \<open>\<open>d[k]\<close>, raising \<open>KeyError\<close> on a missing key.\<close>

definition getitem :: "('k \<times> 'v) list \<Rightarrow> 'k \<Rightarrow> error + 'v" where
  "getitem d k = (case map_of d k of None \<Rightarrow> Inl KeyError | Some v \<Rightarrow> Inr v)"

text \<open>\<open>d.keys()\<close>.\<close>

definition keys :: "('k \<times> 'v) list \<Rightarrow> 'k list" where
  "keys d = map fst d"

subsection \<open>The progress writer \<open>_LogWriter\<close>\<close>

text \<open>
  The \<open>log\<close> argument is \<open>None\<close>, a callable, a \<open>str\<close> (a file path) or any other object.
  A callable is known by an identifier and by the lines on which it raises; another
  object by an identifier and by whether it has the attributes \<open>write\<close> and \<open>flush\<close>.
\<close>

record callback =
  cb_id :: nat
  cb_raises :: "string \<Rightarrow> bool"

record pyobject =
  ob_id :: nat
  has_write :: bool
  has_flush :: bool

datatype log_arg =
    LogNone
  | LogCallable callback
  | LogPath string
  | LogObject pyobject

text \<open>
  A file object is either one that \<open>io.open\<close> returned (with its descriptor and path) or
  the object the caller supplied.
\<close>

datatype fileobj = Opened nat string | Supplied pyobject

datatype event =
    EvOpen nat string       \<comment> \<open>\<open>io.open(path, mode='w')\<close> returned descriptor \<open>n\<close>\<close>
  | EvClose fileobj            \<comment> \<open>\<open>f.close()\<close>\<close>
  | EvPrint fileobj string     \<comment> \<open>\<open>print(line, file=f)\<close>\<close>
  | EvFlush fileobj            \<comment> \<open>\<open>f.flush()\<close>\<close>
  | EvCall nat string       \<comment> \<open>\<open>log_func(line)\<close>\<close>

record world =
  events :: "event list"
  next_fd :: nat
  unopenable :: "string list"   \<comment> \<open>the paths at which \<open>io.open\<close> raises\<close>

definition emit :: "event \<Rightarrow> world \<Rightarrow> world" where
  "emit e w = w\<lparr>events := events w @ [e]\<rparr>"

text \<open>\<open>io.open(path, mode='w')\<close>.\<close>

definition io_open :: "string \<Rightarrow> world \<Rightarrow> (error + fileobj) \<times> world" where
  "io_open path w =
     (if path \<in> set (unopenable w) then (Inl OpenFailed, w)
      else (Inr (Opened (next_fd w) path),
            emit (EvOpen (next_fd w) path) (w\<lparr>next_fd := Suc (next_fd w)\<rparr>)))"

record LogWriter =
  log_func :: "callback option"
  log_file :: "fileobj option"
  needs_closing :: bool

text \<open>\<open>_LogWriter.__init__\<close>.\<close>

fun LogWriter_init :: "log_arg \<Rightarrow> world \<Rightarrow> (error + LogWriter) \<times> world" where
  "LogWriter_init LogNone w =
     (Inr \<lparr>log_func = None, log_file = None, needs_closing = False\<rparr>, w)"
| "LogWriter_init (LogCallable f) w =
     (Inr \<lparr>log_func = Some f, log_file = None, needs_closing = False\<rparr>, w)"
| "LogWriter_init (LogPath p) w =
     (case io_open p w of
        (Inl e, w') \<Rightarrow> (Inl e, w')
      | (Inr fh, w') \<Rightarrow> (Inr \<lparr>log_func = None, log_file = Some fh, needs_closing = True\<rparr>, w'))"
| "LogWriter_init (LogObject ob) w =
     (if \<not> has_write ob then (Inl LogTypeError, w)
      else (Inr \<lparr>log_func = None, log_file = Some (Supplied ob), needs_closing = False\<rparr>, w))"

text \<open>\<open>_LogWriter.__exit__\<close>; it returns \<open>None\<close>, so an exception of the body goes on.\<close>

definition LogWriter_exit :: "LogWriter \<Rightarrow> world \<Rightarrow> world" where
  "LogWriter_exit lw w =
     (case log_file lw of
        Some fh \<Rightarrow> (if needs_closing lw then emit (EvClose fh) w else w)
      | None \<Rightarrow> w)"

text \<open>\<open>hasattr(self.log_file, 'flush')\<close>.\<close>

fun file_has_flush :: "fileobj \<Rightarrow> bool" where
  "file_has_flush (Opened n p) = True"
| "file_has_flush (Supplied ob) = has_flush ob"

text \<open>\<open>_LogWriter.__call__\<close> with one positional argument, as every caller in the module has it.\<close>

definition LogWriter_call :: "LogWriter \<Rightarrow> string \<Rightarrow> world \<Rightarrow> error option \<times> world" where
  "LogWriter_call lw line w =
     (case log_file lw of
        Some fh \<Rightarrow>
          (let w1 = emit (EvPrint fh line) w
           in if file_has_flush fh then (None, emit (EvFlush fh) w1) else (None, w1))
      | None \<Rightarrow>
          (case log_func lw of
             Some f \<Rightarrow>
               (if cb_raises f line then (Some CallbackRaised, emit (EvCall (cb_id f) line) w)
                else (None, emit (EvCall (cb_id f) line) w))
           | None \<Rightarrow> (None, w)))"

text \<open>\<open>'{} -> {}'.format(a, b)\<close>.\<close>

definition format_arrow :: "string \<Rightarrow> string \<Rightarrow> string" where
  "format_arrow a b = a @ '' -> '' @ b"

subsection \<open>The flat copier \<open>copy_store\<close>\<close>

text \<open>
  \<open>normalize_storage_path\<close> (of \<open>zarr.util\<close>) and the regular expressions of the standard
  library are not part of the module: the embedding takes them as parameters.
  \<open>re_search prog key\<close> is the truth value of \<open>prog.search(key)\<close>.
\<close>

record 'p env =
  normalize_storage_path :: "string \<Rightarrow> error + string"
  re_compile :: "string \<Rightarrow> int \<Rightarrow> error + 'p"
  re_search :: "'p \<Rightarrow> string \<Rightarrow> bool"

text \<open>The \<open>excludes\<close> and \<open>includes\<close> arguments: \<open>None\<close>, one \<open>str\<close>, or a sequence.\<close>

datatype patterns_arg = PatNone | PatStr string | PatSeq "string list"

fun normalize_patterns :: "patterns_arg \<Rightarrow> string list" where
  "normalize_patterns PatNone = []"
| "normalize_patterns (PatStr e) = [e]"
| "normalize_patterns (PatSeq es) = es"

text \<open>\<open>[re.compile(e, flags) for e in excludes]\<close>.\<close>

fun compile_all :: "'p env \<Rightarrow> string list \<Rightarrow> int \<Rightarrow> error + 'p list" where
  "compile_all env [] flags = Inr []"
| "compile_all env (e # es) flags =
     (case re_compile env e flags of
        Inl err \<Rightarrow> Inl err
      | Inr prog \<Rightarrow>
          (case compile_all env es flags of
             Inl err \<Rightarrow> Inl err
           | Inr progs \<Rightarrow> Inr (prog # progs)))"

text \<open>
  The two inner loops over the compiled patterns; each starts from the current value of
  \<open>exclude\<close> and leaves at the first match.
\<close>

fun excludes_loop :: "'p env \<Rightarrow> 'p list \<Rightarrow> string \<Rightarrow> bool \<Rightarrow> bool" where
  "excludes_loop env [] source_key exclude = exclude"
| "excludes_loop env (prog # progs) source_key exclude =
     (if re_search env prog source_key then True
      else excludes_loop env progs source_key exclude)"

fun includes_loop :: "'p env \<Rightarrow> 'p list \<Rightarrow> string \<Rightarrow> bool \<Rightarrow> bool" where
  "includes_loop env [] source_key exclude = exclude"
| "includes_loop env (prog # progs) source_key exclude =
     (if re_search env prog source_key then False
      else includes_loop env progs source_key exclude)"

text \<open>The value of \<open>exclude\<close> at the test \<open>if exclude: continue\<close>.\<close>

definition process_excludes_includes :: "'p env \<Rightarrow> 'p list \<Rightarrow> 'p list \<Rightarrow> string \<Rightarrow> bool" where
  "process_excludes_includes env excludes includes source_key =
     (let exclude = excludes_loop env excludes source_key False
      in if exclude then includes_loop env includes source_key exclude else exclude)"

text \<open>
  The source and the destination are mappings of the caller, and they may be one and
  the same mapping. The mappings that exist are held under references: \<open>stores r\<close> is
  what the mapping under reference \<open>r\<close> holds, and \<open>source\<close> and \<open>dest\<close> are references.

  The loop \<open>for source_key in sorted(source.keys())\<close>, over the list of keys taken
  before the loop. \<open>source[source_key]\<close> reads the source as it is at that moment,
  \<open>dest[dest_key] = ...\<close> writes the destination. The result is the exception raised,
  if any, with the mappings and the world as they are at that moment.
\<close>

fun copy_store_loop ::
  "'p env \<Rightarrow> LogWriter \<Rightarrow> nat \<Rightarrow> nat \<Rightarrow> string \<Rightarrow> string \<Rightarrow> 'p list \<Rightarrow> 'p list \<Rightarrow>
   string list \<Rightarrow> (nat \<Rightarrow> (string \<times> 'v) list) \<Rightarrow> world \<Rightarrow>
   error option \<times> (nat \<Rightarrow> (string \<times> 'v) list) \<times> world" where
  "copy_store_loop env lw source dest source_path dest_path excludes includes [] stores w =
     (None, stores, w)"
| "copy_store_loop env lw source dest source_path dest_path excludes includes (source_key # ks)
     stores w =
     (if startswith source_key source_path then
        if process_excludes_includes env excludes includes source_key then
          copy_store_loop env lw source dest source_path dest_path excludes includes ks stores w
        else
          let key_suffix = drop (length source_path) source_key;
              dest_key = dest_path @ key_suffix
          in case LogWriter_call lw (format_arrow source_key dest_key) w of
               (Some e, w') \<Rightarrow> (Some e, stores, w')
             | (None, w') \<Rightarrow>
                 (case getitem (stores source) source_key of
                    Inl e \<Rightarrow> (Some e, stores, w')
                  | Inr v \<Rightarrow>
                      copy_store_loop env lw source dest source_path dest_path excludes includes ks
                        (stores(dest := setitem (stores dest) dest_key v)) w')
      else copy_store_loop env lw source dest source_path dest_path excludes includes ks stores w)"

text \<open>\<open>if source_path: source_path = source_path + '/'\<close>.\<close>

definition add_separator :: "string \<Rightarrow> string" where
  "add_separator p = (if p \<noteq> [] then p @ ''/'' else p)"

text \<open>\<open>copy_store\<close>.\<close>

definition copy_store ::
  "'p env \<Rightarrow> nat \<Rightarrow> nat \<Rightarrow> string \<Rightarrow> string \<Rightarrow> patterns_arg \<Rightarrow> patterns_arg \<Rightarrow> int \<Rightarrow>
   log_arg \<Rightarrow> (nat \<Rightarrow> (string \<times> 'v) list) \<Rightarrow> world \<Rightarrow>
   error option \<times> (nat \<Rightarrow> (string \<times> 'v) list) \<times> world" where
  "copy_store env source dest source_path dest_path excludes includes flags log stores w =
     (case normalize_storage_path env source_path of
        Inl e \<Rightarrow> (Some e, stores, w)
      | Inr source_path1 \<Rightarrow>
     (case normalize_storage_path env dest_path of
        Inl e \<Rightarrow> (Some e, stores, w)
      | Inr dest_path1 \<Rightarrow>
     (let source_path2 = add_separator source_path1;
          dest_path2 = add_separator dest_path1
      in
     (case compile_all env (normalize_patterns excludes) flags of
        Inl e \<Rightarrow> (Some e, stores, w)
      | Inr excludes1 \<Rightarrow>
     (case compile_all env (normalize_patterns includes) flags of
        Inl e \<Rightarrow> (Some e, stores, w)
      | Inr includes1 \<Rightarrow>
     (case LogWriter_init log w of
        (Inl e, w1) \<Rightarrow> (Some e, stores, w1)
      | (Inr lw, w1) \<Rightarrow>
          (case copy_store_loop env lw source dest source_path2 dest_path2 excludes1 includes1
                  (sort (keys (stores source))) stores w1 of
             (r, stores', w2) \<Rightarrow> (r, stores', LogWriter_exit lw w2))))))))"

subsection \<open>Nodes of a hierarchy\<close>

text \<open>
  The values that occur as attributes and as creation keywords: \<open>None\<close>, booleans,
  integers, strings, tuples of integers (chunk shapes) and codec objects, which the
  copier hands on without looking inside.
\<close>

datatype pyval = PNone | PBool bool | PInt int | PStr string | PTuple "int list" | PCodec string

text \<open>
  A source node is an array or dataset (it has the attribute \<open>shape\<close>) or a group. Each
  carries \<open>__module__\<close> and \<open>name\<close>; an array carries what \<open>_copy\<close> reads from it; a group
  carries its members in the order of \<open>keys()\<close>.
\<close>

record array_node =
  a_module :: string
  a_name :: string
  a_shape :: "nat list"
  a_dtype :: string
  a_chunks :: pyval
  a_compressor :: pyval
  a_compression :: pyval
  a_compression_opts :: pyval
  a_shuffle :: pyval
  a_attrs :: "(string \<times> pyval) list"
  a_data :: "int list"

record group_node =
  g_module :: string
  g_name :: string
  g_attrs :: "(string \<times> pyval) list"

datatype node = Array array_node | Group group_node "(string \<times> node) list"

fun node_module :: "node \<Rightarrow> string" where
  "node_module (Array a) = a_module a"
| "node_module (Group g members) = g_module g"

fun node_name :: "node \<Rightarrow> string" where
  "node_name (Array a) = a_name a"
| "node_name (Group g members) = g_name g"

text \<open>\<open>s.split('/')\<close>: never empty, with an empty segment wherever two separators meet.\<close>

fun split_slash :: "string \<Rightarrow> string list" where
  "split_slash [] = [[]]"
| "split_slash (c # s) =
     (if c = CHR ''/'' then [] # split_slash s
      else (case split_slash s of
              [] \<Rightarrow> [[c]]
            | seg # segs \<Rightarrow> (c # seg) # segs))"

text \<open>\<open>d.setdefault(k, v)\<close> and \<open>d.update(other)\<close> on dictionaries.\<close>

definition setdefault :: "('k \<times> 'v) list \<Rightarrow> 'k \<Rightarrow> 'v \<Rightarrow> ('k \<times> 'v) list" where
  "setdefault d k v = (if k \<in> set (keys d) then d else d @ [(k, v)])"

fun update :: "('k \<times> 'v) list \<Rightarrow> ('k \<times> 'v) list \<Rightarrow> ('k \<times> 'v) list" where
  "update d [] = d"
| "update d ((k, v) # other) = update (setitem d k v) other"

subsection \<open>The destination hierarchy\<close>

text \<open>
  The destination is a hierarchy of the caller's library (zarr or h5py). A handle on one
  of its groups or arrays is the \<open>__module__\<close> of its class and its absolute name; the
  hierarchy itself is a dictionary from absolute names to entries. An array entry keeps
  the keywords it was created with, as the library received them.
\<close>

record handle =
  h_module :: string
  h_name :: string

record dest_array =
  da_shape :: "nat list"
  da_dtype :: string
  da_kws :: "(string \<times> pyval) list"
  da_data :: "int list"
  da_attrs :: "(string \<times> pyval) list"

datatype dentry = DGroup "(string \<times> pyval) list" | DArray dest_array

text \<open>
  The state of a copy: the world of the progress writer, the destination hierarchy, and
  the dictionaries that exist, each under its reference, so that two names for one
  dictionary are one reference.
\<close>

record state =
  wld :: world
  dstore :: "(string \<times> dentry) list"
  dicts :: "nat \<Rightarrow> (string \<times> pyval) list"
  next_ref :: nat

text \<open>\<open>d.copy()\<close>: a new dictionary with the items of \<open>d\<close>.\<close>

definition dict_copy :: "nat \<Rightarrow> state \<Rightarrow> nat \<times> state" where
  "dict_copy r st =
     (next_ref st, st\<lparr>dicts := (dicts st)(next_ref st := dicts st r), next_ref := Suc (next_ref st)\<rparr>)"

text \<open>\<open>d.setdefault(k, v)\<close> on the dictionary under reference \<open>r\<close>.\<close>

definition dict_setdefault :: "nat \<Rightarrow> string \<Rightarrow> pyval \<Rightarrow> state \<Rightarrow> state" where
  "dict_setdefault r k v st = st\<lparr>dicts := (dicts st)(r := setdefault (dicts st r) k v)\<rparr>"

text \<open>The progress writer called in a state.\<close>

definition log_call :: "LogWriter \<Rightarrow> string \<Rightarrow> state \<Rightarrow> error option \<times> state" where
  "log_call lw line st = (case LogWriter_call lw line (wld st) of (r, w') \<Rightarrow> (r, st\<lparr>wld := w'\<rparr>))"

text \<open>
  Modelled from the spec: the creation methods \<open>create_group\<close> and \<open>create_dataset\<close> of the
  destination library, which the module calls and does not define. The spec gives them
  as \<open>createContainer(name)\<close> and \<open>createLeaf(name, shape, dtype, ...)\<close>, returning the
  created node, and lets them raise on a name the destination already holds; the names
  follow the progress lines of the docstrings (\<open>/foo\<close>, \<open>/foo/bar\<close>).
\<close>

definition child_name :: "string \<Rightarrow> string \<Rightarrow> string" where
  "child_name parent name = (if parent = ''/'' then parent @ name else parent @ ''/'' @ name)"

definition create_group :: "handle \<Rightarrow> string \<Rightarrow> state \<Rightarrow> (error + handle) \<times> state" where
  "create_group dest name st =
     (let n = child_name (h_name dest) name
      in if n \<in> set (keys (dstore st)) then (Inl Conflict, st)
         else (Inr \<lparr>h_module = h_module dest, h_name = n\<rparr>,
               st\<lparr>dstore := dstore st @ [(n, DGroup [])]\<rparr>))"

text \<open>
  The call \<open>dest.create_dataset(name, shape=..., dtype=..., **kws)\<close>: a keyword of \<open>kws\<close>
  that names one of the arguments already given is a \<open>TypeError\<close> of the call itself.
\<close>

definition create_dataset_params :: "string list" where
  "create_dataset_params = [''name'', ''shape'', ''dtype'']"

definition create_dataset ::
  "handle \<Rightarrow> string \<Rightarrow> nat list \<Rightarrow> string \<Rightarrow> (string \<times> pyval) list \<Rightarrow> state \<Rightarrow>
   (error + handle) \<times> state" where
  "create_dataset dest name shape dtype kws st =
     (let n = child_name (h_name dest) name
      in if \<exists>k \<in> set (keys kws). k \<in> set create_dataset_params then (Inl KeywordTypeError, st)
         else if n \<in> set (keys (dstore st)) then (Inl Conflict, st)
         else (Inr \<lparr>h_module = h_module dest, h_name = n\<rparr>,
               st\<lparr>dstore := dstore st @
                  [(n, DArray \<lparr>da_shape = shape, da_dtype = dtype, da_kws = kws,
                               da_data = [], da_attrs = []\<rparr>)]\<rparr>))"

text \<open>Modelled from the spec: \<open>ds[:] = source\<close>, a full write of the source's contents.\<close>

fun entry_set_data :: "int list \<Rightarrow> dentry \<Rightarrow> dentry" where
  "entry_set_data xs (DArray a) = DArray (a\<lparr>da_data := xs\<rparr>)"
| "entry_set_data xs (DGroup attrs) = DGroup attrs"

text \<open>Modelled from the spec: \<open>node.attrs.update(source.attrs)\<close>, the source winning.\<close>

fun entry_update_attrs :: "(string \<times> pyval) list \<Rightarrow> dentry \<Rightarrow> dentry" where
  "entry_update_attrs other (DArray a) = DArray (a\<lparr>da_attrs := update (da_attrs a) other\<rparr>)"
| "entry_update_attrs other (DGroup attrs) = DGroup (update attrs other)"

definition modify_entry :: "handle \<Rightarrow> (dentry \<Rightarrow> dentry) \<Rightarrow> state \<Rightarrow> state" where
  "modify_entry h f st =
     st\<lparr>dstore := map (\<lambda>(n, e). if n = h_name h then (n, f e) else (n, e)) (dstore st)\<rparr>"

subsection \<open>The node copier \<open>copy\<close>, \<open>copy_all\<close> and \<open>_copy\<close>\<close>

text \<open>
  A call \<open>_copy(log, source, dest, name=..., root=..., shallow=..., without_attrs=...,
  **create_kws)\<close> gives the callee a dictionary of its own with the items of
  \<open>create_kws\<close>, and is a \<open>TypeError\<close> when one of them names a parameter of \<open>_copy\<close>.
\<close>

definition copy_params :: "string list" where
  "copy_params = [''log'', ''source'', ''dest'', ''name'', ''root'', ''shallow'', ''without_attrs'']"

definition pass_create_kws :: "nat \<Rightarrow> state \<Rightarrow> (error + nat) \<times> state" where
  "pass_create_kws create_kws st =
     (if \<exists>k \<in> set (keys (dicts st create_kws)). k \<in> set copy_params then (Inl KeywordTypeError, st)
      else (case dict_copy create_kws st of (r, st') \<Rightarrow> (Inr r, st')))"

text \<open>The compression options of the array branch, by the libraries of source and destination.\<close>

definition setup_compression :: "bool \<Rightarrow> bool \<Rightarrow> array_node \<Rightarrow> nat \<Rightarrow> state \<Rightarrow> state" where
  "setup_compression source_h5py dest_h5py source kws st =
     (if source_h5py then
        if dest_h5py then
          dict_setdefault kws ''shuffle'' (a_shuffle source)
            (dict_setdefault kws ''compression_opts'' (a_compression_opts source)
              (dict_setdefault kws ''compression'' (a_compression source) st))
        else st
      else
        if dest_h5py then
          dict_setdefault kws ''shuffle'' (PBool True)
            (dict_setdefault kws ''compression_opts'' (PInt 1)
              (dict_setdefault kws ''compression'' (PStr ''gzip'') st))
        else dict_setdefault kws ''compressor'' (a_compressor source) st)"

text \<open>The name to copy to: \<open>source.name.split('/')[-1]\<close> when \<open>name\<close> is \<open>None\<close>.\<close>

definition determine_name :: "node \<Rightarrow> string option \<Rightarrow> error + string" where
  "determine_name source name =
     (case name of
        Some n \<Rightarrow> Inr n
      | None \<Rightarrow>
          (let n = last (split_slash (node_name source))
           in if n = [] then Inl NoNameTypeError else Inr n))"

text \<open>
  \<open>_copy\<close>, with the loop over the members of a group as \<open>copy_members\<close>. The result is
  the exception raised, if any, and the state at that moment.
\<close>

fun copy_impl ::
  "LogWriter \<Rightarrow> node \<Rightarrow> handle \<Rightarrow> string option \<Rightarrow> bool \<Rightarrow> bool \<Rightarrow> bool \<Rightarrow> nat \<Rightarrow> state \<Rightarrow>
   error option \<times> state"
and copy_members ::
  "LogWriter \<Rightarrow> (string \<times> node) list \<Rightarrow> handle \<Rightarrow> bool \<Rightarrow> bool \<Rightarrow> nat \<Rightarrow> state \<Rightarrow>
   error option \<times> state" where
  "copy_impl log (Array source) dest name root shallow without_attrs create_kws st =
     (let source_h5py = startswith (a_module source) ''h5py.'';
          dest_h5py = startswith (h_module dest) ''h5py.''
      in case determine_name (Array source) name of
           Inl e \<Rightarrow> (Some e, st)
         | Inr name1 \<Rightarrow>
             (case dict_copy create_kws st of (kws, st1) \<Rightarrow>
                (let st2 = dict_setdefault kws ''chunks'' (a_chunks source) st1;
                     st3 = setup_compression source_h5py dest_h5py source kws st2
                 in case create_dataset dest name1 (a_shape source) (a_dtype source)
                           (dicts st3 kws) st3 of
                      (Inl e, st4) \<Rightarrow> (Some e, st4)
                    | (Inr ds, st4) \<Rightarrow>
                        (case log_call log (format_arrow (a_name source) (h_name ds)) st4 of
                           (Some e, st5) \<Rightarrow> (Some e, st5)
                         | (None, st5) \<Rightarrow>
                             (let st6 = modify_entry ds (entry_set_data (a_data source)) st5
                              in if \<not> without_attrs
                                 then (None, modify_entry ds (entry_update_attrs (a_attrs source)) st6)
                                 else (None, st6))))))"
| "copy_impl log (Group source members) dest name root shallow without_attrs create_kws st =
     (case determine_name (Group source members) name of
        Inl e \<Rightarrow> (Some e, st)
      | Inr name1 \<Rightarrow>
          (if root \<or> \<not> shallow then
             (case create_group dest name1 st of
                (Inl e, st1) \<Rightarrow> (Some e, st1)
              | (Inr grp, st1) \<Rightarrow>
                  (case log_call log (format_arrow (g_name source) (h_name grp)) st1 of
                     (Some e, st2) \<Rightarrow> (Some e, st2)
                   | (None, st2) \<Rightarrow>
                       copy_members log members grp shallow without_attrs create_kws
                         (if \<not> without_attrs
                          then modify_entry grp (entry_update_attrs (g_attrs source)) st2
                          else st2)))
           else (None, st)))"
| "copy_members log [] grp shallow without_attrs create_kws st = (None, st)"
| "copy_members log ((k, member) # members) grp shallow without_attrs create_kws st =
     (case pass_create_kws create_kws st of
        (Inl e, st1) \<Rightarrow> (Some e, st1)
      | (Inr kw, st1) \<Rightarrow>
          (case copy_impl log member grp (Some k) False shallow without_attrs kw st1 of
             (Some e, st2) \<Rightarrow> (Some e, st2)
           | (None, st2) \<Rightarrow> copy_members log members grp shallow without_attrs create_kws st2))"

text \<open>
  \<open>copy\<close>: the body runs inside \<open>with _LogWriter(log) as log\<close>, so \<open>__exit__\<close> runs
  however the body ends; an exception of \<open>__init__\<close> is raised before the body.
\<close>

definition copy ::
  "node \<Rightarrow> handle \<Rightarrow> string option \<Rightarrow> bool \<Rightarrow> bool \<Rightarrow> log_arg \<Rightarrow> nat \<Rightarrow> state \<Rightarrow>
   error option \<times> state" where
  "copy source dest name shallow without_attrs log create_kws st =
     (case LogWriter_init log (wld st) of
        (Inl e, w1) \<Rightarrow> (Some e, st\<lparr>wld := w1\<rparr>)
      | (Inr lw, w1) \<Rightarrow>
          (case (case pass_create_kws create_kws (st\<lparr>wld := w1\<rparr>) of
                   (Inl e, st1) \<Rightarrow> (Some e, st1)
                 | (Inr kw, st1) \<Rightarrow>
                     copy_impl lw source dest name True shallow without_attrs kw st1) of
             (r, st2) \<Rightarrow> (r, st2\<lparr>wld := LogWriter_exit lw (wld st2)\<rparr>)))"

text \<open>
  \<open>copy_all\<close>: the loop \<open>for k in source.keys()\<close> over the members of the source; an
  array has no \<open>keys\<close>.
\<close>

fun copy_all_body ::
  "LogWriter \<Rightarrow> node \<Rightarrow> handle \<Rightarrow> bool \<Rightarrow> bool \<Rightarrow> nat \<Rightarrow> state \<Rightarrow> error option \<times> state" where
  "copy_all_body lw (Group source members) dest shallow without_attrs create_kws st =
     copy_members lw members dest shallow without_attrs create_kws st"
| "copy_all_body lw (Array source) dest shallow without_attrs create_kws st =
     (Some AttributeError, st)"

definition copy_all ::
  "node \<Rightarrow> handle \<Rightarrow> bool \<Rightarrow> bool \<Rightarrow> log_arg \<Rightarrow> nat \<Rightarrow> state \<Rightarrow> error option \<times> state" where
  "copy_all source dest shallow without_attrs log create_kws st =
     (case LogWriter_init log (wld st) of
        (Inl e, w1) \<Rightarrow> (Some e, st\<lparr>wld := w1\<rparr>)
      | (Inr lw, w1) \<Rightarrow>
          (case copy_all_body lw source dest shallow without_attrs create_kws (st\<lparr>wld := w1\<rparr>) of
             (r, st2) \<Rightarrow> (r, st2\<lparr>wld := LogWriter_exit lw (wld st2)\<rparr>)))"

subsection \<open>The read-through view \<open>LazyLoader\<close>\<close>

text \<open>
  The class \<open>Group\<close> of \<open>zarr.hierarchy\<close>, whose instance a view wraps, is not part of
  the module: the embedding takes its operations as parameters, over any type \<open>'g\<close> of
  groups and any type \<open>'m\<close> of members. \<open>group_getitem\<close> is \<open>grp[item]\<close>,
  \<open>getitem_ellipsis\<close> is \<open>m[...]\<close> on what \<open>grp[item]\<close> returned, \<open>group_len\<close> is \<open>len(grp)\<close>,
  \<open>group_iter\<close> is the keys that \<open>iter(grp)\<close> yields and \<open>group_contains\<close> is \<open>item in grp\<close>.
  Each of them may raise.
\<close>

record ('g, 'm) hierarchy =
  group_getitem :: "'g \<Rightarrow> string \<Rightarrow> error + 'm"
  getitem_ellipsis :: "'m \<Rightarrow> error + int list"
  group_len :: "'g \<Rightarrow> error + nat"
  group_iter :: "'g \<Rightarrow> error + string list"
  group_contains :: "'g \<Rightarrow> string \<Rightarrow> error + bool"

text \<open>
  A view holds the group it wraps and its cache. The group is the caller's and may
  change between two operations of the view. \<open>reads\<close> is not a field of the class: it
  records every evaluation of \<open>self.grp[item]\<close>, in order, with the key and with whether
  \<open>self.grp[item][...]\<close> returned.
\<close>

record 'g LazyLoader =
  grp :: 'g
  cache :: "(string \<times> int list) list"
  reads :: "(string \<times> bool) list"

text \<open>\<open>LazyLoader.__init__\<close>.\<close>

definition LazyLoader_init :: "'g \<Rightarrow> 'g LazyLoader" where
  "LazyLoader_init g = \<lparr>grp = g, cache = [], reads = []\<rparr>"

text \<open>
  \<open>LazyLoader.__getitem__\<close>. The handler catches the \<open>KeyError\<close> of \<open>self.cache[item]\<close>
  only; an exception of \<open>self.grp[item]\<close> or of \<open>[...]\<close> leaves the method before the
  assignment to the cache.
\<close>

definition LazyLoader_getitem ::
  "('g, 'm) hierarchy \<Rightarrow> string \<Rightarrow> 'g LazyLoader \<Rightarrow> (error + int list) \<times> 'g LazyLoader" where
  "LazyLoader_getitem G item v =
     (case getitem (cache v) item of
        Inr arr \<Rightarrow> (Inr arr, v)
      | Inl KeyError \<Rightarrow>
          (case group_getitem G (grp v) item of
             Inl e \<Rightarrow> (Inl e, v\<lparr>reads := reads v @ [(item, False)]\<rparr>)
           | Inr m \<Rightarrow>
               (case getitem_ellipsis G m of
                  Inl e \<Rightarrow> (Inl e, v\<lparr>reads := reads v @ [(item, False)]\<rparr>)
                | Inr arr \<Rightarrow>
                    (Inr arr, v\<lparr>cache := setitem (cache v) item arr,
                                 reads := reads v @ [(item, True)]\<rparr>)))
      | Inl e \<Rightarrow> (Inl e, v))"

text \<open>\<open>__len__\<close>, \<open>__iter__\<close> and \<open>__contains__\<close>.\<close>

definition LazyLoader_len :: "('g, 'm) hierarchy \<Rightarrow> 'g LazyLoader \<Rightarrow> error + nat" where
  "LazyLoader_len G v = group_len G (grp v)"

definition LazyLoader_iter :: "('g, 'm) hierarchy \<Rightarrow> 'g LazyLoader \<Rightarrow> error + string list" where
  "LazyLoader_iter G v = group_iter G (grp v)"

definition LazyLoader_contains ::
  "('g, 'm) hierarchy \<Rightarrow> string \<Rightarrow> 'g LazyLoader \<Rightarrow> error + bool" where
  "LazyLoader_contains G item v = group_contains G (grp v) item"

text \<open>
  A sequence of operations on one view; \<open>GroupChanged g\<close> is the caller changing the
  wrapped group to \<open>g\<close> between two of them.
\<close>

datatype 'g view_op = Get string | Len | Iter | Contains string | GroupChanged 'g

datatype view_result =
    GotItem "error + int list" | GotLen "error + nat" | GotKeys "error + string list"
  | GotBool "error + bool" | NoResult

fun view_step ::
  "('g, 'm) hierarchy \<Rightarrow> 'g view_op \<Rightarrow> 'g LazyLoader \<Rightarrow> view_result \<times> 'g LazyLoader" where
  "view_step G (Get item) v = (case LazyLoader_getitem G item v of (r, v') \<Rightarrow> (GotItem r, v'))"
| "view_step G Len v = (GotLen (LazyLoader_len G v), v)"
| "view_step G Iter v = (GotKeys (LazyLoader_iter G v), v)"
| "view_step G (Contains item) v = (GotBool (LazyLoader_contains G item v), v)"
| "view_step G (GroupChanged g) v = (NoResult, v\<lparr>grp := g\<rparr>)"

fun view_run ::
  "('g, 'm) hierarchy \<Rightarrow> 'g view_op list \<Rightarrow> 'g LazyLoader \<Rightarrow> view_result list \<times> 'g LazyLoader" where
  "view_run G [] v = ([], v)"
| "view_run G (op # ops) v =
     (case view_step G op v of
        (r, v') \<Rightarrow> (case view_run G ops v' of (rs, v'') \<Rightarrow> (r # rs, v'')))"

subsection \<open>\<open>load\<close>\<close>

text \<open>
  \<open>normalize_store_arg\<close>, \<open>contains_array\<close>, \<open>contains_group\<close> and the classes \<open>Array\<close> and
  \<open>Group\<close> are not part of the module: the embedding takes them as parameters, at
  \<open>path=None\<close> as \<open>load\<close> calls them. \<open>array_read\<close> is \<open>Array(store=store, path=None)[...]\<close>
  and \<open>group_open\<close> is \<open>Group(store=store, path=None)\<close>.
\<close>

record ('a, 's, 'g) storage =
  normalize_store_arg :: "'a \<Rightarrow> error + 's"
  contains_array :: "'s \<Rightarrow> bool"
  contains_group :: "'s \<Rightarrow> bool"
  array_read :: "'s \<Rightarrow> error + int list"
  group_open :: "'s \<Rightarrow> error + 'g"

datatype 'g loaded = LoadedArray "int list" | LoadedGroup "'g LazyLoader" | LoadedNone

text \<open>\<open>load\<close>: a function body that ends without \<open>return\<close> returns \<open>None\<close>.\<close>

definition load :: "('a, 's, 'g) storage \<Rightarrow> 'a \<Rightarrow> error + 'g loaded" where
  "load sto store0 =
     (case normalize_store_arg sto store0 of
        Inl e \<Rightarrow> Inl e
      | Inr store \<Rightarrow>
          (if contains_array sto store then
             (case array_read sto store of Inl e \<Rightarrow> Inl e | Inr arr \<Rightarrow> Inr (LoadedArray arr))
           else if contains_group sto store then
             (case group_open sto store of
                Inl e \<Rightarrow> Inl e
              | Inr g \<Rightarrow> Inr (LoadedGroup (LazyLoader_init g)))
           else Inr LoadedNone))"

subsection \<open>Concrete collaborators and inputs\<close>

text \<open>
  Modelled from the spec: \<open>normalize_storage_path\<close> of \<open>zarr.util\<close>, which the module
  imports and does not define; the spec has it strip the leading and trailing
  separators of a path.
\<close>

definition is_slash :: "char \<Rightarrow> bool" where
  "is_slash c = (c = CHR ''/'')"

definition strip_slashes :: "string \<Rightarrow> string" where
  "strip_slashes p = rev (dropWhile is_slash (rev (dropWhile is_slash p)))"

text \<open>
  The regular expressions without operators: the pattern is a plain text, and it is
  searched anywhere in the key.
\<close>

fun found_in :: "string \<Rightarrow> string \<Rightarrow> bool" where
  "found_in p [] = (p = [])"
| "found_in p (c # s) = (startswith (c # s) p \<or> found_in p s)"

definition literal_env :: "string env" where
  "literal_env = \<lparr>normalize_storage_path = (\<lambda>p. Inr (strip_slashes p)),
                   re_compile = (\<lambda>e flags. Inr e), re_search = found_in\<rparr>"

definition world0 :: world where
  "world0 = \<lparr>events = [], next_fd = 3, unopenable = []\<rparr>"



text \<open>The keywords an array of the destination was created with.\<close>

definition created_kws :: "state \<Rightarrow> string \<Rightarrow> (string \<times> pyval) list option" where
  "created_kws st n =
     (case map_of (dstore st) n of
        Some (DArray a) \<Rightarrow> Some (da_kws a)
      | Some (DGroup attrs) \<Rightarrow> None
      | None \<Rightarrow> None)"

text \<open>The events that open and that close a file, and the events a run has added.\<close>

fun is_open :: "event \<Rightarrow> bool" where
  "is_open (EvOpen n p) = True"
| "is_open e = False"

fun is_close :: "event \<Rightarrow> bool" where
  "is_close (EvClose f) = True"
| "is_close e = False"

definition new_events :: "world \<Rightarrow> world \<Rightarrow> event list" where
  "new_events w w' = drop (length (events w)) (events w')"


text \<open>
  A state with an empty root group in the destination and one dictionary, the empty
  \<open>create_kws\<close>, under reference \<open>0\<close>; handles on the root of a zarr and of an h5py
  hierarchy; a zarr group \<open>/foo\<close> with a subgroup and an array; an h5py dataset.
\<close>

definition state0 :: state where
  "state0 = \<lparr>wld = world0, dstore = [(''/'', DGroup [])], dicts = (\<lambda>r. []), next_ref = 1\<rparr>"

definition zarr_root :: handle where
  "zarr_root = \<lparr>h_module = ''zarr.hierarchy'', h_name = ''/''\<rparr>"

definition h5py_root :: handle where
  "h5py_root = \<lparr>h_module = ''h5py._hl.group'', h_name = ''/''\<rparr>"

definition zarr_t :: array_node where
  "zarr_t = \<lparr>a_module = ''zarr.core'', a_name = ''/foo/t'', a_shape = [3], a_dtype = ''i8'',
      a_chunks = PTuple [3], a_compressor = PCodec ''blosc'', a_compression = PNone,
      a_compression_opts = PNone, a_shuffle = PNone, a_attrs = [(''long_name'', PStr ''time'')],
      a_data = [1, 2, 3]\<rparr>"

definition zarr_baz :: array_node where
  "zarr_baz = zarr_t\<lparr>a_name := ''/foo/bar/baz'', a_attrs := []\<rparr>"

definition zarr_foo :: node where
  "zarr_foo =
     Group \<lparr>g_module = ''zarr.hierarchy'', g_name = ''/foo'', g_attrs = [(''units'', PStr ''m'')]\<rparr>
       [(''bar'', Group \<lparr>g_module = ''zarr.hierarchy'', g_name = ''/foo/bar'',
                         g_attrs = [(''k'', PInt 1)]\<rparr>
                    [(''baz'', Array zarr_baz)]),
        (''t'', Array zarr_t)]"

definition h5py_dset :: array_node where
  "h5py_dset = \<lparr>a_module = ''h5py._hl.dataset'', a_name = ''/dset'', a_shape = [100],
      a_dtype = ''i8'', a_chunks = PTuple [50], a_compressor = PNone,
      a_compression = PStr ''lzf'', a_compression_opts = PNone, a_shuffle = PBool True,
      a_attrs = [], a_data = [7]\<rparr>"


text \<open>One call of the progress writer, as a step from world to world.\<close>

definition log_step :: "LogWriter \<Rightarrow> world \<Rightarrow> world \<Rightarrow> bool" where
  "log_step lw w w' \<longleftrightarrow> (\<exists>line. w' = snd (LogWriter_call lw line w))"

text \<open>
  The dictionaries of a state are kept in a later state: none has gone and each holds
  the items it held.
\<close>

definition dicts_kept :: "state \<Rightarrow> state \<Rightarrow> bool" where
  "dicts_kept st st' \<longleftrightarrow>
     next_ref st \<le> next_ref st' \<and> (\<forall>r < next_ref st. dicts st' r = dicts st r)"

text \<open>The state \<open>state0\<close> with one item in every dictionary.\<close>

definition state1 :: state where
  "state1 = state0\<lparr>dicts := (\<lambda>r. [(''fill_value'', PInt 0)])\<rparr>"

text \<open>
  The keywords that the array branch of \<open>_copy\<close> hands to \<open>create_dataset\<close>, from the
  items of \<open>create_kws\<close>: the \<open>setdefault\<close> calls of the branch, in their order.
\<close>

definition leaf_kws :: "bool \<Rightarrow> bool \<Rightarrow> array_node \<Rightarrow> (string \<times> pyval) list \<Rightarrow> (string \<times> pyval) list" where
  "leaf_kws source_h5py dest_h5py source create_kws =
     (let kws = setdefault create_kws ''chunks'' (a_chunks source)
      in if source_h5py then
           if dest_h5py then
             setdefault (setdefault (setdefault kws ''compression'' (a_compression source))
                ''compression_opts'' (a_compression_opts source)) ''shuffle'' (a_shuffle source)
           else kws
         else
           if dest_h5py then
             setdefault (setdefault (setdefault kws ''compression'' (PStr ''gzip''))
                ''compression_opts'' (PInt 1)) ''shuffle'' (PBool True)
           else setdefault kws ''compressor'' (a_compressor source))"

text \<open>A progress writer that does nothing, and a small group with a subgroup and an array.\<close>

definition no_log :: LogWriter where
  "no_log = \<lparr>log_func = None, log_file = None, needs_closing = False\<rparr>"

definition zarr_g :: node where
  "zarr_g =
     Group \<lparr>g_module = ''zarr.hierarchy'', g_name = ''/g'', g_attrs = [(''units'', PStr ''m'')]\<rparr>
       [(''sub'', Group \<lparr>g_module = ''zarr.hierarchy'', g_name = ''/g/sub'',
                         g_attrs = [(''k'', PInt 1)]\<rparr> []),
        (''t'', Array (zarr_t\<lparr>a_name := ''/g/t''\<rparr>))]"

text \<open>
  What a call leaves in the world when it keeps to the discipline of the progress
  writer: the events it found are still there; for a path that can be opened, the
  events it added start with the opening of one file and end with the closing of that
  file, and open and close nothing else; for a path that cannot be opened it added
  nothing; for any other \<open>log\<close> it opened and closed nothing.
\<close>

definition log_discipline :: "log_arg \<Rightarrow> world \<Rightarrow> world \<Rightarrow> bool" where
  "log_discipline log w w' =
     (take (length (events w)) (events w') = events w \<and>
      (case log of
         LogPath p \<Rightarrow>
           if p \<in> set (unopenable w) then new_events w w' = []
           else filter is_open (new_events w w') = [EvOpen (next_fd w) p] \<and>
                filter is_close (new_events w w') = [EvClose (Opened (next_fd w) p)] \<and>
                hd (new_events w w') = EvOpen (next_fd w) p \<and>
                last (new_events w w') = EvClose (Opened (next_fd w) p)
       | LogNone \<Rightarrow> filter is_open (new_events w w') = [] \<and> filter is_close (new_events w w') = []
       | LogCallable f \<Rightarrow>
           filter is_open (new_events w w') = [] \<and> filter is_close (new_events w w') = []
       | LogObject ob \<Rightarrow>
           filter is_open (new_events w w') = [] \<and> filter is_close (new_events w w') = []))"

text \<open>A later world that differs by progress events only.\<close>

definition only_progress :: "world \<Rightarrow> world \<Rightarrow> bool" where
  "only_progress w w' \<longleftrightarrow>
     (\<exists>mid. events w' = events w @ mid \<and> (\<forall>e \<in> set mid. \<not> is_open e \<and> \<not> is_close e)) \<and>
     next_fd w' = next_fd w \<and> unopenable w' = unopenable w"

text \<open>The state \<open>state0\<close> with a destination that already holds \<open>/g/t\<close>.\<close>

definition state_with_t :: state where
  "state_with_t = state0\<lparr>dstore := [(''/'', DGroup []), (''/g/t'', DGroup [])]\<rparr>"

text \<open>
  How many times the view has evaluated \<open>self.grp[item]\<close>, how many of these reads
  returned the contents of the member, and how many of the \<open>view[item]\<close> of a sequence
  of operations raised. The invariant of a view: of every key in its cache it has had
  the contents from the group once, and of no other key.
\<close>

definition fetches :: "string \<Rightarrow> 'g LazyLoader \<Rightarrow> nat" where
  "fetches item v = length (filter (\<lambda>r. fst r = item) (reads v))"

definition fetches_returned :: "string \<Rightarrow> 'g LazyLoader \<Rightarrow> nat" where
  "fetches_returned item v = length (filter (\<lambda>r. r = (item, True)) (reads v))"

fun raised :: "view_result \<Rightarrow> bool" where
  "raised (GotItem (Inl e)) = True"
| "raised r = False"

fun raised_gets :: "string \<Rightarrow> 'g view_op list \<Rightarrow> view_result list \<Rightarrow> nat" where
  "raised_gets item (Get k # ops) (r # rs) =
     (if k = item \<and> raised r then 1 else 0) + raised_gets item ops rs"
| "raised_gets item (op # ops) (r # rs) = raised_gets item ops rs"
| "raised_gets item ops rs = 0"

definition view_inv :: "'g LazyLoader \<Rightarrow> bool" where
  "view_inv v \<longleftrightarrow>
     (\<forall>item. fetches_returned item v = (if item \<in> set (keys (cache v)) then 1 else 0))"

text \<open>
  Modelled from the spec: the group that a view wraps, for the examples. The spec has
  the view materialise in full the leaf named by the key; here a group is a dictionary
  from the names of its arrays to their contents, \<open>grp[item]\<close> is the lookup in the
  dictionary, which as in every mapping raises \<open>KeyError\<close> at a name it does not hold,
  and \<open>[...]\<close> returns the contents.
\<close>

definition dict_group :: "((string \<times> int list) list, int list) hierarchy" where
  "dict_group =
     \<lparr>group_getitem = getitem,
      getitem_ellipsis = (\<lambda>m. Inr m),
      group_len = (\<lambda>g. Inr (length g)),
      group_iter = (\<lambda>g. Inr (keys g)),
      group_contains = (\<lambda>g item. Inr (item \<in> set (keys g)))\<rparr>"

text \<open>A group with one array, and a sequence of operations on a view of it.\<close>

definition view_grp :: "(string \<times> int list) list" where
  "view_grp = [(''t'', [1, 2, 3])]"

definition view_ops :: "(string \<times> int list) list view_op list" where
  "view_ops = [GroupChanged [], Len, Get ''missing'', Get ''t'']"

text \<open>
  Collaborators of \<open>load\<close> for the examples: a store is a dictionary, it holds an array
  when it has the key \<open>.zarray\<close> and a group when it has the key \<open>.zgroup\<close>.
\<close>

definition dict_storage ::
  "((string \<times> string) list, (string \<times> string) list, (string \<times> int list) list) storage" where
  "dict_storage =
     \<lparr>normalize_store_arg = (\<lambda>s. Inr s),
      contains_array = (\<lambda>s. ''.zarray'' \<in> set (keys s)),
      contains_group = (\<lambda>s. ''.zgroup'' \<in> set (keys s)),
      array_read = (\<lambda>s. Inr []),
      group_open = (\<lambda>s. Inr [])\<rparr>"

section \<open>Properties\<close>

subsection \<open>Strings and dictionaries\<close>


lemma map_of_setitem: "map_of (setitem d k v) = (map_of d)(k \<mapsto> v)"
  by (induction d k v rule: setitem.induct) (auto simp: fun_eq_iff)

lemma keys_setitem: "set (keys (setitem d k v)) = insert k (set (keys d))"
  by (induction d k v rule: setitem.induct) (auto simp: keys_def)






subsection \<open>The filter of \<open>copy_store\<close>\<close>

lemma excludes_loop_iff:
  "excludes_loop env progs key b \<longleftrightarrow> b \<or> (\<exists>p \<in> set progs. re_search env p key)"
  by (induction progs) auto

lemma includes_loop_iff:
  "includes_loop env progs key b \<longleftrightarrow> b \<and> \<not> (\<exists>p \<in> set progs. re_search env p key)"
  by (induction progs) auto

text \<open>
  Claim C4. In the filter of \<open>copy_store\<close> the include patterns override the exclude
  patterns. A key is dropped exactly when some exclude pattern is found in it and no
  include pattern is; so a key in which an exclude pattern and an include pattern are
  both found is kept, and with no patterns at all every key is kept.
\<close>

theorem include_overrides_exclude:
  "(process_excludes_includes env excludes includes key \<longleftrightarrow>
      (\<exists>e \<in> set excludes. re_search env e key) \<and> (\<forall>i \<in> set includes. \<not> re_search env i key))
   \<and> ((\<exists>e \<in> set excludes. re_search env e key) \<and> (\<exists>i \<in> set includes. re_search env i key)
        \<longrightarrow> \<not> process_excludes_includes env excludes includes key)
   \<and> \<not> process_excludes_includes env [] [] key"
  by (auto simp: process_excludes_includes_def Let_def excludes_loop_iff includes_loop_iff)

theorem include_overrides_exclude_witness:
  "(\<exists>e \<in> set [''.meta'']. re_search literal_env e ''a/.meta'')
   \<and> (\<exists>i \<in> set [''zz'', ''a/'']. re_search literal_env i ''a/.meta'')
   \<and> \<not> process_excludes_includes literal_env [''.meta''] [''zz'', ''a/''] ''a/.meta''
   \<and> process_excludes_includes literal_env [''.meta''] [''zz''] ''a/.meta''"
proof -
  have e: "\<exists>e \<in> set [''.meta'']. re_search literal_env e ''a/.meta''"
    by (simp add: literal_env_def)
  have i: "\<exists>i \<in> set [''zz'', ''a/'']. re_search literal_env i ''a/.meta''"
    by (simp add: literal_env_def)
  have n: "\<forall>i \<in> set [''zz'']. \<not> re_search literal_env i ''a/.meta''"
    by (simp add: literal_env_def)
  from include_overrides_exclude[of literal_env "[''.meta'']" "[''zz'', ''a/'']" "''a/.meta''"] e i
  have kept: "\<not> process_excludes_includes literal_env [''.meta''] [''zz'', ''a/''] ''a/.meta''"
    by blast
  from include_overrides_exclude[of literal_env "[''.meta'']" "[''zz'']" "''a/.meta''"] e n
  have dropped: "process_excludes_includes literal_env [''.meta''] [''zz''] ''a/.meta''"
    by blast
  from e i kept dropped show ?thesis by blast
qed

subsection \<open>The flat copier\<close>

lemma process_excludes_includes_iff:
  "process_excludes_includes env excludes includes key \<longleftrightarrow>
     (\<exists>e \<in> set excludes. re_search env e key) \<and> \<not> (\<exists>i \<in> set includes. re_search env i key)"
  by (simp add: process_excludes_includes_def Let_def excludes_loop_iff includes_loop_iff)











subsection \<open>The node copier: what the steps leave unchanged\<close>

lemma create_group_unchanged:
  "create_group dest name st = (r, st') \<Longrightarrow>
   dicts st' = dicts st \<and> next_ref st' = next_ref st \<and> wld st' = wld st"
  by (auto simp: create_group_def Let_def split: if_splits)

lemma create_dataset_unchanged:
  "create_dataset dest name shape dtype kws st = (r, st') \<Longrightarrow>
   dicts st' = dicts st \<and> next_ref st' = next_ref st \<and> wld st' = wld st"
  by (auto simp: create_dataset_def Let_def split: if_splits)

lemma log_call_unchanged:
  "log_call lw line st = (r, st') \<Longrightarrow>
   dicts st' = dicts st \<and> next_ref st' = next_ref st \<and> dstore st' = dstore st"
  by (auto simp: log_call_def split: prod.splits)

lemma modify_entry_unchanged [simp]:
  "dicts (modify_entry h f st) = dicts st"
  "next_ref (modify_entry h f st) = next_ref st"
  "wld (modify_entry h f st) = wld st"
  by (simp_all add: modify_entry_def)

lemma dict_setdefault_unchanged [simp]:
  "next_ref (dict_setdefault r k v st) = next_ref st"
  "wld (dict_setdefault r k v st) = wld st"
  "dstore (dict_setdefault r k v st) = dstore st"
  "r' \<noteq> r \<Longrightarrow> dicts (dict_setdefault r k v st) r' = dicts st r'"
  by (simp_all add: dict_setdefault_def)

lemma setup_compression_unchanged [simp]:
  "next_ref (setup_compression s d a r st) = next_ref st"
  "wld (setup_compression s d a r st) = wld st"
  "dstore (setup_compression s d a r st) = dstore st"
  "r' \<noteq> r \<Longrightarrow> dicts (setup_compression s d a r st) r' = dicts st r'"
  by (simp_all add: setup_compression_def)

lemma dict_copy_unchanged:
  "dict_copy r st = (r', st') \<Longrightarrow>
   r' = next_ref st \<and> next_ref st' = Suc (next_ref st) \<and> wld st' = wld st \<and>
   dstore st' = dstore st \<and> dicts st' r' = dicts st r \<and>
   (\<forall>x. x \<noteq> next_ref st \<longrightarrow> dicts st' x = dicts st x)"
  by (auto simp: dict_copy_def)

lemma pass_create_kws_unchanged:
  "pass_create_kws r st = (res, st') \<Longrightarrow>
   next_ref st \<le> next_ref st' \<and> wld st' = wld st \<and> dstore st' = dstore st \<and>
   (\<forall>x < next_ref st. dicts st' x = dicts st x)"
  by (auto simp: pass_create_kws_def dict_copy_def split: if_splits)


lemma dicts_kept_refl: "dicts_kept st st"
  by (simp add: dicts_kept_def)

lemma dicts_kept_trans: "dicts_kept a b \<Longrightarrow> dicts_kept b c \<Longrightarrow> dicts_kept a c"
  by (auto simp: dicts_kept_def)

lemma dicts_kept_same:
  "dicts st' = dicts st \<Longrightarrow> next_ref st' = next_ref st \<Longrightarrow> dicts_kept st st'"
  by (simp add: dicts_kept_def)

lemma copy_array_dicts_kept:
  assumes "copy_impl log (Array source) dest name root shallow without_attrs create_kws st = (r, st')"
  shows "dicts_kept st st'"
proof (cases "determine_name (Array source) name")
  case (Inl e)
  with assms show ?thesis by (simp add: dicts_kept_refl)
next
  case (Inr name1)
  obtain kws st1 where c: "dict_copy create_kws st = (kws, st1)" by (cases "dict_copy create_kws st")
  define st3 where "st3 = setup_compression (startswith (a_module source) ''h5py.'')
     (startswith (h_module dest) ''h5py.'') source kws
     (dict_setdefault kws ''chunks'' (a_chunks source) st1)"
  from dict_copy_unchanged[OF c] have k3: "dicts_kept st st3"
    by (auto simp: dicts_kept_def st3_def)
  obtain res st4 where d: "create_dataset dest name1 (a_shape source) (a_dtype source) (dicts st3 kws) st3 = (res, st4)"
    by (cases "create_dataset dest name1 (a_shape source) (a_dtype source) (dicts st3 kws) st3")
  from create_dataset_unchanged[OF d] have k4: "dicts_kept st3 st4"
    by (simp add: dicts_kept_same)
  show ?thesis
  proof (cases res)
    case (Inl e)
    with assms Inr c d have "st' = st4" by (simp add: Let_def st3_def)
    with k3 k4 show ?thesis by (simp add: dicts_kept_trans[OF k3])
  next
    case (Inr ds)
    obtain r5 st5 where l: "log_call log (format_arrow (a_name source) (h_name ds)) st4 = (r5, st5)"
      by (cases "log_call log (format_arrow (a_name source) (h_name ds)) st4")
    from log_call_unchanged[OF l] have k5: "dicts_kept st4 st5"
      by (simp add: dicts_kept_same)
    have e: "copy_impl log (Array source) dest name root shallow without_attrs create_kws st
       = (case r5 of Some e \<Rightarrow> (Some e, st5)
          | None \<Rightarrow> (let st6 = modify_entry ds (entry_set_data (a_data source)) st5
                      in if \<not> without_attrs
                         then (None, modify_entry ds (entry_update_attrs (a_attrs source)) st6)
                         else (None, st6)))"
      using \<open>determine_name (Array source) name = Inr name1\<close> c d[unfolded st3_def] Inr l[unfolded st3_def]
      by (simp add: Let_def)
    have "dicts st' = dicts st5 \<and> next_ref st' = next_ref st5"
      using assms[unfolded e] by (cases r5) (simp_all add: Let_def split: if_splits, auto)
    then have k6: "dicts_kept st5 st'" by (simp add: dicts_kept_same)
    show ?thesis
      by (rule dicts_kept_trans[OF k3 dicts_kept_trans[OF k4 dicts_kept_trans[OF k5 k6]]])
  qed
qed

lemma copy_dicts_kept:
  "copy_impl log source dest name root shallow without_attrs create_kws st = (r, st')
     \<Longrightarrow> dicts_kept st st'"
  "copy_members log members parent shallow without_attrs create_kws st = (r, st')
     \<Longrightarrow> dicts_kept st st'"
proof (induction log source dest name root shallow without_attrs create_kws st
         and log members parent shallow without_attrs create_kws st
       arbitrary: r st' and r st' rule: copy_impl_copy_members.induct)
  case (1 log source dest name root shallow without_attrs create_kws st)
  then show ?case by (rule copy_array_dicts_kept)
next
  case (2 log source members dest name root shallow without_attrs create_kws st)
  show ?case
  proof (cases "determine_name (Group source members) name")
    case (Inl e)
    with "2.prems" show ?thesis by (simp add: dicts_kept_refl)
  next
    case (Inr name1)
    show ?thesis
    proof (cases "root \<or> \<not> shallow")
      case False
      with "2.prems" Inr show ?thesis by (simp add: dicts_kept_refl)
    next
      case True
      obtain res st1 where g: "create_group dest name1 st = (res, st1)"
        by (cases "create_group dest name1 st")
      from create_group_unchanged[OF g] have k1: "dicts_kept st st1"
        by (simp add: dicts_kept_same)
      show ?thesis
      proof (cases res)
        case (Inl e)
        with "2.prems" Inr True g have "st' = st1" by simp
        with k1 show ?thesis by simp
      next
        case gh: (Inr gh)
        obtain r2 st2 where l: "log_call log (format_arrow (g_name source) (h_name gh)) st1 = (r2, st2)"
          by (cases "log_call log (format_arrow (g_name source) (h_name gh)) st1")
        from log_call_unchanged[OF l] have k2: "dicts_kept st1 st2"
          by (simp add: dicts_kept_same)
        show ?thesis
        proof (cases r2)
          case (Some e)
          with "2.prems" Inr True g gh l have "st' = st2" by simp
          with k2 have "dicts_kept st1 st'" by simp
          then show ?thesis by (rule dicts_kept_trans[OF k1])
        next
          case None
          define st3 where "st3 = (if \<not> without_attrs
                          then modify_entry gh (entry_update_attrs (g_attrs source)) st2
                          else st2)"
          have k3: "dicts_kept st2 st3" by (simp add: st3_def dicts_kept_def)
          from "2.prems" Inr True g gh l None
          have m: "copy_members log members gh shallow without_attrs create_kws st3 = (r, st')"
            by (simp add: st3_def)
          have k4: "dicts_kept st3 st'"
            using "2.IH"[OF Inr True g[unfolded gh, symmetric] refl l[unfolded None, symmetric] refl m[unfolded st3_def]]
            by (simp add: st3_def)
          show ?thesis
            by (rule dicts_kept_trans[OF k1 dicts_kept_trans[OF k2 dicts_kept_trans[OF k3 k4]]])
        qed
      qed
    qed
  qed
next
  case (3 log parent shallow without_attrs create_kws st)
  then show ?case by (simp add: dicts_kept_refl)
next
  case (4 log k member members parent shallow without_attrs create_kws st)
  obtain res st1 where p: "pass_create_kws create_kws st = (res, st1)"
    by (cases "pass_create_kws create_kws st")
  from pass_create_kws_unchanged[OF p] have k1: "dicts_kept st st1"
    by (simp add: dicts_kept_def)
  show ?case
  proof (cases res)
    case (Inl e)
    with "4.prems" p have "st' = st1" by simp
    with k1 show ?thesis by simp
  next
    case kw: (Inr kw)
    obtain r2 st2 where c: "copy_impl log member parent (Some k) False shallow without_attrs kw st1 = (r2, st2)"
      by (cases "copy_impl log member parent (Some k) False shallow without_attrs kw st1")
    have k2: "dicts_kept st1 st2"
      by (rule "4.IH"(1)[OF p[unfolded kw, symmetric] refl c])
    show ?thesis
    proof (cases r2)
      case (Some e)
      with "4.prems" p kw c have "st' = st2" by simp
      with k2 have "dicts_kept st1 st'" by simp
      then show ?thesis by (rule dicts_kept_trans[OF k1])
    next
      case None
      from "4.prems" p kw c None
      have m: "copy_members log members parent shallow without_attrs create_kws st2 = (r, st')"
        by simp
      have k3: "dicts_kept st2 st'"
        by (rule "4.IH"(2)[OF p[unfolded kw, symmetric] refl c[unfolded None, symmetric] refl m])
      show ?thesis
        by (rule dicts_kept_trans[OF k1 dicts_kept_trans[OF k2 k3]])
    qed
  qed
qed

lemma dicts_kept_wld [simp]:
  "dicts_kept st (st'\<lparr>wld := w\<rparr>) = dicts_kept st st'"
  "dicts_kept (st\<lparr>wld := w\<rparr>) st' = dicts_kept st st'"
  by (simp_all add: dicts_kept_def)

lemma copy_top_dicts_kept:
  "dicts_kept st (snd (copy source dest name shallow without_attrs log create_kws st))"
proof (cases "LogWriter_init log (wld st)")
  case (Pair res w1)
  show ?thesis
  proof (cases res)
    case (Inl e)
    with Pair show ?thesis by (simp add: copy_def dicts_kept_refl)
  next
    case (Inr lw)
    obtain pr st1 where p: "pass_create_kws create_kws (st\<lparr>wld := w1\<rparr>) = (pr, st1)"
      by (cases "pass_create_kws create_kws (st\<lparr>wld := w1\<rparr>)")
    from pass_create_kws_unchanged[OF p] have k1: "dicts_kept st st1"
      by (simp add: dicts_kept_def)
    show ?thesis
    proof (cases pr)
      case (Inl e)
      with Pair Inr p k1 show ?thesis by (simp add: copy_def)
    next
      case kw: (Inr kw)
      obtain r2 st2 where c: "copy_impl lw source dest name True shallow without_attrs kw st1 = (r2, st2)"
        by (cases "copy_impl lw source dest name True shallow without_attrs kw st1")
      from copy_dicts_kept(1)[OF c] have k2: "dicts_kept st1 st2" .
      from Pair Inr p kw c show ?thesis
        by (simp add: copy_def dicts_kept_trans[OF k1 k2])
    qed
  qed
qed

lemma copy_all_dicts_kept:
  "dicts_kept st (snd (copy_all source dest shallow without_attrs log create_kws st))"
proof (cases "LogWriter_init log (wld st)")
  case (Pair res w1)
  show ?thesis
  proof (cases res)
    case (Inl e)
    with Pair show ?thesis by (simp add: copy_all_def dicts_kept_refl)
  next
    case (Inr lw)
    obtain r2 st2 where c: "copy_all_body lw source dest shallow without_attrs create_kws (st\<lparr>wld := w1\<rparr>) = (r2, st2)"
      by (cases "copy_all_body lw source dest shallow without_attrs create_kws (st\<lparr>wld := w1\<rparr>)")
    have "dicts_kept (st\<lparr>wld := w1\<rparr>) st2"
    proof (cases source)
      case (Array a)
      with c show ?thesis by (auto simp: dicts_kept_def)
    next
      case (Group g members)
      with c have "copy_members lw members dest shallow without_attrs create_kws (st\<lparr>wld := w1\<rparr>)
          = (r2, st2)" by simp
      then show ?thesis by (rule copy_dicts_kept(2))
    qed
    with Pair Inr c show ?thesis by (simp add: copy_all_def)
  qed
qed

text \<open>
  Claim C10. \<open>copy\<close>, \<open>copy_all\<close> and \<open>_copy\<close> do not mutate the caller's \<open>create_kws\<close>:
  every dictionary that exists when the call starts, the caller's among them, holds
  after the call the items it held before, whatever the source tree and however the
  call ends. The array branch installs its defaults in a copy.
\<close>

theorem create_kws_not_mutated:
  "(\<forall>ref < next_ref st.
      dicts (snd (copy source dest name shallow without_attrs log create_kws st)) ref = dicts st ref)
   \<and> (\<forall>ref < next_ref st.
      dicts (snd (copy_all source dest shallow without_attrs log create_kws st)) ref = dicts st ref)
   \<and> (\<forall>ref < next_ref st.
      dicts (snd (copy_impl lw source dest name root shallow without_attrs create_kws st)) ref
        = dicts st ref)"
proof -
  have "dicts_kept st (snd (copy_impl lw source dest name root shallow without_attrs create_kws st))"
    by (rule copy_dicts_kept(1)[OF prod.collapse[symmetric]])
  with copy_top_dicts_kept[of st source dest name shallow without_attrs log create_kws]
    copy_all_dicts_kept[of st source dest shallow without_attrs log create_kws]
  show ?thesis by (simp add: dicts_kept_def)
qed


theorem create_kws_not_mutated_witness:
  "(0::nat) < next_ref state1
   \<and> dicts (snd (copy (Array zarr_t) zarr_root None False False LogNone 0 state1)) 0 = dicts state1 0
   \<and> dicts state1 0 = [(''fill_value'', PInt 0)]
   \<and> created_kws (snd (copy (Array zarr_t) zarr_root None False False LogNone 0 state1)) ''/t''
       = Some [(''fill_value'', PInt 0), (''chunks'', PTuple [3]), (''compressor'', PCodec ''blosc'')]"
proof -
  have h: "(0::nat) < next_ref state1" by code_simp
  note c = conjunct1[OF create_kws_not_mutated[of state1 "Array zarr_t" zarr_root None False False LogNone 0]]
  have a: "dicts (snd (copy (Array zarr_t) zarr_root None False False LogNone 0 state1)) 0 = dicts state1 0"
    by (rule mp[OF spec[OF c] h])
  have b: "dicts state1 0 = [(''fill_value'', PInt 0)]" by code_simp
  have d: "created_kws (snd (copy (Array zarr_t) zarr_root None False False LogNone 0 state1)) ''/t''
       = Some [(''fill_value'', PInt 0), (''chunks'', PTuple [3]), (''compressor'', PCodec ''blosc'')]"
    by code_simp
  show ?thesis by (rule conjI[OF h conjI[OF a conjI[OF b d]]])
qed

subsection \<open>The array branch of \<open>_copy\<close>\<close>

lemma dicts_dict_setdefault_same:
  "dicts (dict_setdefault r k v st) r = setdefault (dicts st r) k v"
  by (simp add: dict_setdefault_def)

lemma dicts_leaf_kws:
  "dicts (setup_compression s d a r (dict_setdefault r ''chunks'' (a_chunks a) st)) r
     = leaf_kws s d a (dicts st r)"
  by (simp add: setup_compression_def leaf_kws_def Let_def dicts_dict_setdefault_same)

lemma map_of_append_fresh:
  "n \<notin> set (keys D) \<Longrightarrow> map_of (D @ [(n, e)]) n = Some e"
  by (induction D) (auto simp: keys_def)

lemma modify_entry_append_fresh:
  assumes "dstore st = D @ [(n, e)]" and "n \<notin> set (keys D)" and "h_name h = n"
  shows "dstore (modify_entry h f st) = D @ [(n, f e)]"
proof -
  have "map (\<lambda>(m, x). if m = n then (m, f x) else (m, x)) D = D"
    using assms(2) by (induction D) (auto simp: keys_def)
  with assms(1,3) show ?thesis by (simp add: modify_entry_def)
qed

lemma create_dataset_Inr:
  assumes "create_dataset dest name shape dtype kws st = (Inr ds, st')"
  shows "h_name ds = child_name (h_name dest) name
     \<and> child_name (h_name dest) name \<notin> set (keys (dstore st))
     \<and> dstore st' = dstore st @ [(child_name (h_name dest) name,
           DArray \<lparr>da_shape = shape, da_dtype = dtype, da_kws = kws, da_data = [], da_attrs = []\<rparr>)]"
  using assms by (simp add: create_dataset_def Let_def split: if_splits) auto


lemma copy_array_success:
  assumes run: "copy_impl lw (Array a) dest name root shallow without_attrs create_kws st = (None, st')"
    and nm: "determine_name (Array a) name = Inr n"
  shows "child_name (h_name dest) n \<notin> set (keys (dstore st))
     \<and> dstore st' = dstore st @ [(child_name (h_name dest) n,
          DArray \<lparr>da_shape = a_shape a, da_dtype = a_dtype a,
                  da_kws = leaf_kws (startswith (a_module a) ''h5py.'')
                             (startswith (h_module dest) ''h5py.'') a (dicts st create_kws),
                  da_data = a_data a,
                  da_attrs = (if without_attrs then [] else update [] (a_attrs a))\<rparr>)]"
proof -
  obtain kws st1 where c: "dict_copy create_kws st = (kws, st1)" by (cases "dict_copy create_kws st")
  define st3 where "st3 = setup_compression (startswith (a_module a) ''h5py.'')
     (startswith (h_module dest) ''h5py.'') a kws
     (dict_setdefault kws ''chunks'' (a_chunks a) st1)"
  have c1: "dicts st1 kws = dicts st create_kws" "dstore st1 = dstore st"
    using c by (auto simp: dict_copy_def)
  have k3: "dicts st3 kws = leaf_kws (startswith (a_module a) ''h5py.'')
                             (startswith (h_module dest) ''h5py.'') a (dicts st create_kws)"
    unfolding st3_def dicts_leaf_kws c1 ..
  have d3: "dstore st3 = dstore st" by (simp add: st3_def c1)
  obtain res st4 where d: "create_dataset dest n (a_shape a) (a_dtype a) (dicts st3 kws) st3 = (res, st4)"
    by (cases "create_dataset dest n (a_shape a) (a_dtype a) (dicts st3 kws) st3")
  show ?thesis
  proof (cases res)
    case (Inl e)
    with run nm c d show ?thesis by (simp add: Let_def st3_def)
  next
    case (Inr ds)
    note cd = create_dataset_Inr[OF d[unfolded Inr]]
    obtain r5 st5 where l: "log_call lw (format_arrow (a_name a) (h_name ds)) st4 = (r5, st5)"
      by (cases "log_call lw (format_arrow (a_name a) (h_name ds)) st4")
    from log_call_unchanged[OF l] have d5: "dstore st5 = dstore st4" by simp
    have e: "copy_impl lw (Array a) dest name root shallow without_attrs create_kws st
       = (case r5 of Some e \<Rightarrow> (Some e, st5)
          | None \<Rightarrow> (let st6 = modify_entry ds (entry_set_data (a_data a)) st5
                      in if \<not> without_attrs
                         then (None, modify_entry ds (entry_update_attrs (a_attrs a)) st6)
                         else (None, st6)))"
      using nm c d[unfolded st3_def] Inr l[unfolded st3_def]
      by (simp add: Let_def)
    from run[unfolded e] have r5: "r5 = None" by (cases r5) simp_all
    define st6 where "st6 = modify_entry ds (entry_set_data (a_data a)) st5"
    have fresh: "child_name (h_name dest) n \<notin> set (keys (dstore st))"
      using cd d3 by simp
    have s5: "dstore st5 = dstore st @ [(child_name (h_name dest) n,
           DArray \<lparr>da_shape = a_shape a, da_dtype = a_dtype a, da_kws = dicts st3 kws,
                   da_data = [], da_attrs = []\<rparr>)]"
      using cd d3 d5 by simp
    have s6: "dstore st6 = dstore st @ [(child_name (h_name dest) n,
           DArray \<lparr>da_shape = a_shape a, da_dtype = a_dtype a, da_kws = dicts st3 kws,
                   da_data = a_data a, da_attrs = []\<rparr>)]"
      unfolding st6_def using modify_entry_append_fresh[OF s5 fresh conjunct1[OF cd]] by simp
    have s7: "dstore (modify_entry ds (entry_update_attrs (a_attrs a)) st6)
        = dstore st @ [(child_name (h_name dest) n,
           DArray \<lparr>da_shape = a_shape a, da_dtype = a_dtype a, da_kws = dicts st3 kws,
                   da_data = a_data a, da_attrs = update [] (a_attrs a)\<rparr>)]"
      using modify_entry_append_fresh[OF s6 fresh conjunct1[OF cd]] by simp
    have st': "st' = (if \<not> without_attrs
                         then modify_entry ds (entry_update_attrs (a_attrs a)) st6 else st6)"
      using run[unfolded e] r5 by (simp add: Let_def st6_def split: if_splits)
    show ?thesis
      using fresh s6 s7 by (simp add: st' k3)
  qed
qed

text \<open>
  Claim C3, as the code has it. In the array branch of \<open>_copy\<close> the keywords of
  compression that the caller has not given are set by the libraries of source and
  destination: zarr to zarr takes the \<open>compressor\<close> of the source; h5py to zarr sets
  none, so that the destination's own defaults hold; zarr to h5py sets \<open>compression\<close>
  to gzip, \<open>compression_opts\<close> to 1 and \<open>shuffle\<close> to true; and h5py to h5py takes
  \<open>compression\<close>, \<open>compression_opts\<close> and \<open>shuffle\<close> of the source. A keyword the caller
  has given is kept in every case, and \<open>chunks\<close> defaults to the chunks of the source.
\<close>

theorem compression_defaults_by_pair:
  assumes run: "copy_impl lw (Array a) dest name root shallow without_attrs create_kws st = (None, st')"
    and nm: "determine_name (Array a) name = Inr n"
  shows "created_kws st' (child_name (h_name dest) n) =
     Some (let kws = setdefault (dicts st create_kws) ''chunks'' (a_chunks a)
           in if \<not> startswith (a_module a) ''h5py.'' \<and> \<not> startswith (h_module dest) ''h5py.''
              then setdefault kws ''compressor'' (a_compressor a)
              else if startswith (a_module a) ''h5py.'' \<and> \<not> startswith (h_module dest) ''h5py.''
              then kws
              else if \<not> startswith (a_module a) ''h5py.'' \<and> startswith (h_module dest) ''h5py.''
              then setdefault (setdefault (setdefault kws ''compression'' (PStr ''gzip''))
                      ''compression_opts'' (PInt 1)) ''shuffle'' (PBool True)
              else setdefault (setdefault (setdefault kws ''compression'' (a_compression a))
                      ''compression_opts'' (a_compression_opts a)) ''shuffle'' (a_shuffle a))"
proof -
  note s = copy_array_success[OF run nm]
  have "map_of (dstore st') (child_name (h_name dest) n) =
     Some (DArray \<lparr>da_shape = a_shape a, da_dtype = a_dtype a,
                  da_kws = leaf_kws (startswith (a_module a) ''h5py.'')
                             (startswith (h_module dest) ''h5py.'') a (dicts st create_kws),
                  da_data = a_data a,
                  da_attrs = (if without_attrs then [] else update [] (a_attrs a))\<rparr>)"
    unfolding conjunct2[OF s] by (rule map_of_append_fresh[OF conjunct1[OF s]])
  then have "created_kws st' (child_name (h_name dest) n)
     = Some (leaf_kws (startswith (a_module a) ''h5py.'')
                             (startswith (h_module dest) ''h5py.'') a (dicts st create_kws))"
    by (simp add: created_kws_def)
  then show ?thesis by (simp add: leaf_kws_def Let_def)
qed

theorem compression_defaults_by_pair_witness:
  "copy_impl no_log (Array zarr_t) h5py_root None True False False 0 state1
     = (None, snd (copy_impl no_log (Array zarr_t) h5py_root None True False False 0 state1))
   \<and> determine_name (Array zarr_t) None = Inr ''t''
   \<and> created_kws (snd (copy_impl no_log (Array zarr_t) h5py_root None True False False 0 state1)) ''/t''
      = Some [(''fill_value'', PInt 0), (''chunks'', PTuple [3]), (''compression'', PStr ''gzip''),
              (''compression_opts'', PInt 1), (''shuffle'', PBool True)]"
proof -
  have f: "fst (copy_impl no_log (Array zarr_t) h5py_root None True False False 0 state1) = None"
    by code_simp
  have run: "copy_impl no_log (Array zarr_t) h5py_root None True False False 0 state1
     = (None, snd (copy_impl no_log (Array zarr_t) h5py_root None True False False 0 state1))"
    using f by (simp add: prod_eq_iff)
  have nm: "determine_name (Array zarr_t) None = Inr ''t''" by code_simp
  note c = compression_defaults_by_pair[OF run nm]
  have v: "(let kws = setdefault (dicts state1 0) ''chunks'' (a_chunks zarr_t)
           in if \<not> startswith (a_module zarr_t) ''h5py.'' \<and> \<not> startswith (h_module h5py_root) ''h5py.''
              then setdefault kws ''compressor'' (a_compressor zarr_t)
              else if startswith (a_module zarr_t) ''h5py.'' \<and> \<not> startswith (h_module h5py_root) ''h5py.''
              then kws
              else if \<not> startswith (a_module zarr_t) ''h5py.'' \<and> startswith (h_module h5py_root) ''h5py.''
              then setdefault (setdefault (setdefault kws ''compression'' (PStr ''gzip''))
                      ''compression_opts'' (PInt 1)) ''shuffle'' (PBool True)
              else setdefault (setdefault (setdefault kws ''compression'' (a_compression zarr_t))
                      ''compression_opts'' (a_compression_opts zarr_t)) ''shuffle'' (a_shuffle zarr_t))
     = [(''fill_value'', PInt 0), (''chunks'', PTuple [3]), (''compression'', PStr ''gzip''),
              (''compression_opts'', PInt 1), (''shuffle'', PBool True)]"
    by code_simp
  have n: "child_name (h_name h5py_root) ''t'' = ''/t''" by code_simp
  note c' = c[unfolded v n]
  show ?thesis by (rule conjI[OF run conjI[OF nm c']])
qed

text \<open>
  The claim as written has h5py to h5py pass on only what the caller gave. An h5py
  dataset compressed with lzf, copied to an h5py group with no keyword given, is
  created with the compression settings of the source.
\<close>

theorem foreign_to_foreign_counterexample:
  "startswith (a_module h5py_dset) ''h5py.'' \<and> startswith (h_module h5py_root) ''h5py.''
   \<and> dicts state0 0 = []
   \<and> fst (copy (Array h5py_dset) h5py_root None False False LogNone 0 state0) = None
   \<and> created_kws (snd (copy (Array h5py_dset) h5py_root None False False LogNone 0 state0)) ''/dset''
      = Some [(''chunks'', PTuple [50]), (''compression'', PStr ''lzf''),
              (''compression_opts'', PNone), (''shuffle'', PBool True)]
   \<and> created_kws (snd (copy (Array h5py_dset) h5py_root None False False LogNone 0 state0)) ''/dset''
      \<noteq> Some (setdefault (dicts state0 0) ''chunks'' (a_chunks h5py_dset))"
  by code_simp

subsection \<open>Shallow copies\<close>








subsection \<open>The node copier: progress lines and the name error\<close>

text \<open>
  The world after \<open>_copy\<close> comes from the world before by calls of the progress writer
  alone, and \<open>_copy\<close> raises the name error only where it determines the name, before
  any other step.
\<close>

lemma log_call_step:
  assumes "log_call lw line st = (r, st')"
  shows "log_step lw (wld st) (wld st') \<and> r \<noteq> Some NoNameTypeError"
proof -
  obtain r0 w0 where c: "LogWriter_call lw line (wld st) = (r0, w0)"
    by (cases "LogWriter_call lw line (wld st)")
  with assms have e: "r = r0" "wld st' = w0" by (auto simp: log_call_def)
  have "log_step lw (wld st) w0"
    unfolding log_step_def using c by (intro exI[of _ line]) simp
  moreover have "r0 \<noteq> Some NoNameTypeError"
    using c by (auto simp: LogWriter_call_def Let_def split: option.splits if_splits)
  ultimately show ?thesis using e by simp
qed

lemma create_group_error:
  "create_group dest name st = (Inl e, st') \<Longrightarrow> e \<noteq> NoNameTypeError \<and> st' = st"
  by (auto simp: create_group_def Let_def split: if_splits)

lemma create_dataset_error:
  "create_dataset dest name shape dtype kws st = (Inl e, st') \<Longrightarrow> e \<noteq> NoNameTypeError \<and> st' = st"
  by (auto simp: create_dataset_def Let_def split: if_splits)

lemma pass_create_kws_error:
  "pass_create_kws r st = (Inl e, st') \<Longrightarrow> e \<noteq> NoNameTypeError \<and> st' = st"
  by (auto simp: pass_create_kws_def dict_copy_def split: if_splits)

lemma determine_name_error:
  "determine_name source name = Inl e \<Longrightarrow> e = NoNameTypeError"
  by (auto simp: determine_name_def Let_def split: option.splits if_splits)

lemma copy_array_log_steps:
  assumes run: "copy_impl lw (Array source) dest name root shallow without_attrs create_kws st = (r, st')"
  shows "(log_step lw)\<^sup>*\<^sup>* (wld st) (wld st') \<and>
         (r = Some NoNameTypeError \<longrightarrow>
            determine_name (Array source) name = Inl NoNameTypeError \<and> st' = st)"
proof (cases "determine_name (Array source) name")
  case (Inl e)
  with run determine_name_error[OF Inl] show ?thesis by simp
next
  case (Inr name1)
  obtain kws st1 where c: "dict_copy create_kws st = (kws, st1)" by (cases "dict_copy create_kws st")
  define st3 where "st3 = setup_compression (startswith (a_module source) ''h5py.'')
     (startswith (h_module dest) ''h5py.'') source kws
     (dict_setdefault kws ''chunks'' (a_chunks source) st1)"
  have w3: "wld st3 = wld st" using c by (auto simp: st3_def dict_copy_def)
  obtain res st4 where d: "create_dataset dest name1 (a_shape source) (a_dtype source) (dicts st3 kws) st3 = (res, st4)"
    by (cases "create_dataset dest name1 (a_shape source) (a_dtype source) (dicts st3 kws) st3")
  from create_dataset_unchanged[OF d] have w4: "wld st4 = wld st" using w3 by simp
  show ?thesis
  proof (cases res)
    case (Inl e)
    with run Inr c d have "r = Some e" "st' = st4" by (simp_all add: Let_def st3_def)
    with create_dataset_error[OF d[unfolded Inl]] w4 show ?thesis by simp
  next
    case ds: (Inr ds)
    obtain r5 st5 where l: "log_call lw (format_arrow (a_name source) (h_name ds)) st4 = (r5, st5)"
      by (cases "log_call lw (format_arrow (a_name source) (h_name ds)) st4")
    note ls = log_call_step[OF l]
    have e: "copy_impl lw (Array source) dest name root shallow without_attrs create_kws st
       = (case r5 of Some e \<Rightarrow> (Some e, st5)
          | None \<Rightarrow> (let st6 = modify_entry ds (entry_set_data (a_data source)) st5
                      in if \<not> without_attrs
                         then (None, modify_entry ds (entry_update_attrs (a_attrs source)) st6)
                         else (None, st6)))"
      using Inr c d[unfolded st3_def] ds l[unfolded st3_def]
      by (simp add: Let_def)
    have "wld st' = wld st5 \<and> r = r5"
      using run[unfolded e] by (cases r5) (simp_all add: Let_def split: if_splits, auto)
    with ls w4 show ?thesis by auto
  qed
qed

lemma copy_log_steps:
  "copy_impl lw source dest name root shallow without_attrs create_kws st = (r, st')
     \<Longrightarrow> (log_step lw)\<^sup>*\<^sup>* (wld st) (wld st') \<and>
         (r = Some NoNameTypeError \<longrightarrow>
            determine_name source name = Inl NoNameTypeError \<and> st' = st)"
  "copy_members lw members parent shallow without_attrs create_kws st = (r, st')
     \<Longrightarrow> (log_step lw)\<^sup>*\<^sup>* (wld st) (wld st') \<and> r \<noteq> Some NoNameTypeError"
proof (induction lw source dest name root shallow without_attrs create_kws st
         and lw members parent shallow without_attrs create_kws st
       arbitrary: r st' and r st' rule: copy_impl_copy_members.induct)
  case (1 lw source dest name root shallow without_attrs create_kws st)
  then show ?case by (rule copy_array_log_steps)
next
  case (2 lw source members dest name root shallow without_attrs create_kws st)
  show ?case
  proof (cases "determine_name (Group source members) name")
    case (Inl e)
    with "2.prems" determine_name_error[OF Inl] show ?thesis by simp
  next
    case (Inr name1)
    show ?thesis
    proof (cases "root \<or> \<not> shallow")
      case False
      with "2.prems" Inr show ?thesis by auto
    next
      case True
      obtain res st1 where g: "create_group dest name1 st = (res, st1)"
        by (cases "create_group dest name1 st")
      from create_group_unchanged[OF g] have w1: "wld st1 = wld st" by simp
      show ?thesis
      proof (cases res)
        case (Inl e)
        with "2.prems" Inr True g have "r = Some e" "st' = st1" by simp_all
        with create_group_error[OF g[unfolded Inl]] w1 show ?thesis by simp
      next
        case gh: (Inr gh)
        obtain r2 st2 where l: "log_call lw (format_arrow (g_name source) (h_name gh)) st1 = (r2, st2)"
          by (cases "log_call lw (format_arrow (g_name source) (h_name gh)) st1")
        note ls = log_call_step[OF l]
        show ?thesis
        proof (cases r2)
          case (Some e)
          with "2.prems" Inr True g gh l have "st' = st2" "r = Some e" by simp_all
          with ls w1 Some show ?thesis by auto
        next
          case None
          define st3 where "st3 = (if \<not> without_attrs
                          then modify_entry gh (entry_update_attrs (g_attrs source)) st2
                          else st2)"
          have w3: "wld st3 = wld st2" by (simp add: st3_def)
          from "2.prems" Inr True g gh l None
          have m: "copy_members lw members gh shallow without_attrs create_kws st3 = (r, st')"
            by (simp add: st3_def)
          have k4: "(log_step lw)\<^sup>*\<^sup>* (wld st3) (wld st') \<and> r \<noteq> Some NoNameTypeError"
            using "2.IH"[OF Inr True g[unfolded gh, symmetric] refl l[unfolded None, symmetric] refl m[unfolded st3_def]]
            by (simp add: st3_def)
          from ls have "(log_step lw)\<^sup>*\<^sup>* (wld st) (wld st3)" using w1 w3 by auto
          with k4 show ?thesis by auto
        qed
      qed
    qed
  qed
next
  case (3 lw parent shallow without_attrs create_kws st)
  then show ?case by simp
next
  case (4 lw k member members parent shallow without_attrs create_kws st)
  obtain res st1 where p: "pass_create_kws create_kws st = (res, st1)"
    by (cases "pass_create_kws create_kws st")
  from pass_create_kws_unchanged[OF p] have w1: "wld st1 = wld st" by simp
  show ?case
  proof (cases res)
    case (Inl e)
    with "4.prems" p have "st' = st1" "r = Some e" by simp_all
    with pass_create_kws_error[OF p[unfolded Inl]] w1 show ?thesis by simp
  next
    case kw: (Inr kw)
    obtain r2 st2 where c: "copy_impl lw member parent (Some k) False shallow without_attrs kw st1 = (r2, st2)"
      by (cases "copy_impl lw member parent (Some k) False shallow without_attrs kw st1")
    have k2: "(log_step lw)\<^sup>*\<^sup>* (wld st1) (wld st2) \<and>
         (r2 = Some NoNameTypeError \<longrightarrow>
            determine_name member (Some k) = Inl NoNameTypeError \<and> st2 = st1)"
      by (rule "4.IH"(1)[OF p[unfolded kw, symmetric] refl c])
    have nn: "r2 \<noteq> Some NoNameTypeError"
      using k2 by (auto simp: determine_name_def)
    show ?thesis
    proof (cases r2)
      case (Some e)
      with "4.prems" p kw c have "st' = st2" "r = r2" by simp_all
      with k2 nn w1 show ?thesis by simp
    next
      case None
      from "4.prems" p kw c None
      have m: "copy_members lw members parent shallow without_attrs create_kws st2 = (r, st')"
        by simp
      have k3: "(log_step lw)\<^sup>*\<^sup>* (wld st2) (wld st') \<and> r \<noteq> Some NoNameTypeError"
        by (rule "4.IH"(2)[OF p[unfolded kw, symmetric] refl c[unfolded None, symmetric] refl m])
      with k2 w1 show ?thesis by auto
    qed
  qed
qed

subsection \<open>The name of the copy\<close>









subsection \<open>The discipline of the progress writer\<close>

lemma only_progress_refl: "only_progress w w"
  by (simp add: only_progress_def)

lemma only_progress_trans:
  assumes "only_progress a b" and "only_progress b c"
  shows "only_progress a c"
proof -
  from assms(1) obtain m1 where m1: "events b = events a @ m1"
      "\<forall>e \<in> set m1. \<not> is_open e \<and> \<not> is_close e" "next_fd b = next_fd a" "unopenable b = unopenable a"
    unfolding only_progress_def by (elim exE conjE)
  from assms(2) obtain m2 where m2: "events c = events b @ m2"
      "\<forall>e \<in> set m2. \<not> is_open e \<and> \<not> is_close e" "next_fd c = next_fd b" "unopenable c = unopenable b"
    unfolding only_progress_def by (elim exE conjE)
  have "events c = events a @ (m1 @ m2)" using m1(1) m2(1) by simp
  moreover have "\<forall>e \<in> set (m1 @ m2). \<not> is_open e \<and> \<not> is_close e" using m1(2) m2(2) by auto
  ultimately show ?thesis
    unfolding only_progress_def using m1(3,4) m2(3,4) by (intro conjI exI[of _ "m1 @ m2"]) simp_all
qed

lemma LogWriter_call_only_progress: "only_progress w (snd (LogWriter_call lw line w))"
  by (auto simp: LogWriter_call_def only_progress_def emit_def Let_def split: option.splits)

lemma log_step_only_progress: "log_step lw w w' \<Longrightarrow> only_progress w w'"
  by (auto simp: log_step_def LogWriter_call_only_progress)

lemma log_steps_only_progress: "(log_step lw)\<^sup>*\<^sup>* w w' \<Longrightarrow> only_progress w w'"
proof (induction rule: rtranclp_induct)
  case base
  show ?case by (rule only_progress_refl)
next
  case (step y z)
  from step.IH log_step_only_progress[OF step.hyps(2)] show ?case by (rule only_progress_trans)
qed

text \<open>The body of a \<open>with _LogWriter(log)\<close> block that only writes progress keeps the discipline.\<close>

lemma with_LogWriter_discipline:
  assumes body: "\<And>lw w1. LogWriter_init log w = (Inr lw, w1) \<Longrightarrow> only_progress w1 (body lw w1)"
  shows "log_discipline log w
           (case LogWriter_init log w of
              (Inl e, w1) \<Rightarrow> w1
            | (Inr lw, w1) \<Rightarrow> LogWriter_exit lw (body lw w1))"
proof (cases log)
  case LogNone
  let ?lw = "\<lparr>log_func = None, log_file = None, needs_closing = False\<rparr>"
  have i: "LogWriter_init log w = (Inr ?lw, w)" by (simp add: LogNone)
  from body[OF i] obtain mid where "events (body ?lw w) = events w @ mid"
     "\<forall>e \<in> set mid. \<not> is_open e \<and> \<not> is_close e"
    unfolding only_progress_def by (elim exE conjE)
  then show ?thesis
    by (simp add: log_discipline_def LogNone LogWriter_exit_def new_events_def filter_empty_conv)
next
  case (LogCallable f)
  let ?lw = "\<lparr>log_func = Some f, log_file = None, needs_closing = False\<rparr>"
  have i: "LogWriter_init log w = (Inr ?lw, w)" by (simp add: LogCallable)
  from body[OF i] obtain mid where "events (body ?lw w) = events w @ mid"
     "\<forall>e \<in> set mid. \<not> is_open e \<and> \<not> is_close e"
    unfolding only_progress_def by (elim exE conjE)
  then show ?thesis
    by (simp add: log_discipline_def LogCallable LogWriter_exit_def new_events_def filter_empty_conv)
next
  case (LogObject ob)
  show ?thesis
  proof (cases "has_write ob")
    case False
    then show ?thesis by (simp add: log_discipline_def LogObject new_events_def)
  next
    case True
    let ?lw = "\<lparr>log_func = None, log_file = Some (Supplied ob), needs_closing = False\<rparr>"
    have i: "LogWriter_init log w = (Inr ?lw, w)" using True by (simp add: LogObject)
    from body[OF i] obtain mid where "events (body ?lw w) = events w @ mid"
       "\<forall>e \<in> set mid. \<not> is_open e \<and> \<not> is_close e"
      unfolding only_progress_def by (elim exE conjE)
    with True show ?thesis
      by (simp add: log_discipline_def LogObject LogWriter_exit_def new_events_def filter_empty_conv)
  qed
next
  case (LogPath p)
  show ?thesis
  proof (cases "p \<in> set (unopenable w)")
    case True
    then show ?thesis by (simp add: log_discipline_def LogPath new_events_def io_open_def)
  next
    case False
    let ?lw = "\<lparr>log_func = None, log_file = Some (Opened (next_fd w) p), needs_closing = True\<rparr>"
    let ?w1 = "emit (EvOpen (next_fd w) p) (w\<lparr>next_fd := Suc (next_fd w)\<rparr>)"
    have i: "LogWriter_init log w = (Inr ?lw, ?w1)" using False by (simp add: LogPath io_open_def)
    from body[OF i] obtain mid where mid: "events (body ?lw ?w1) = events ?w1 @ mid"
       "\<forall>e \<in> set mid. \<not> is_open e \<and> \<not> is_close e"
      unfolding only_progress_def by (elim exE conjE)
    have ev: "events (LogWriter_exit ?lw (body ?lw ?w1))
       = events w @ EvOpen (next_fd w) p # mid @ [EvClose (Opened (next_fd w) p)]"
      using mid(1) by (simp add: LogWriter_exit_def emit_def)
    have f1: "filter is_open mid = []" "filter is_close mid = []"
      using mid(2) by (simp_all add: filter_empty_conv)
    have res: "(case LogWriter_init log w of
              (Inl e, w1) \<Rightarrow> w1
            | (Inr lw, w1) \<Rightarrow> LogWriter_exit lw (body lw w1)) = LogWriter_exit ?lw (body ?lw ?w1)"
      by (simp add: i)
    show ?thesis
      unfolding res using False f1
      by (simp add: log_discipline_def LogPath new_events_def ev)
  qed
qed

lemma copy_wld:
  "wld (snd (copy source dest name shallow without_attrs log create_kws st))
     = (case LogWriter_init log (wld st) of
          (Inl e, w1) \<Rightarrow> w1
        | (Inr lw, w1) \<Rightarrow>
            LogWriter_exit lw
              (wld (snd (case pass_create_kws create_kws (st\<lparr>wld := w1\<rparr>) of
                           (Inl e, st1) \<Rightarrow> (Some e, st1)
                         | (Inr kw, st1) \<Rightarrow>
                             copy_impl lw source dest name True shallow without_attrs kw st1))))"
  by (simp add: copy_def split: prod.splits sum.splits)

lemma copy_all_wld:
  "wld (snd (copy_all source dest shallow without_attrs log create_kws st))
     = (case LogWriter_init log (wld st) of
          (Inl e, w1) \<Rightarrow> w1
        | (Inr lw, w1) \<Rightarrow>
            LogWriter_exit lw
              (wld (snd (copy_all_body lw source dest shallow without_attrs create_kws
                           (st\<lparr>wld := w1\<rparr>)))))"
  by (simp add: copy_all_def split: prod.splits sum.splits)

lemma copy_body_only_progress:
  "only_progress w1
     (wld (snd (case pass_create_kws create_kws (st\<lparr>wld := w1\<rparr>) of
                  (Inl e, st1) \<Rightarrow> (Some e, st1)
                | (Inr kw, st1) \<Rightarrow>
                    copy_impl lw source dest name True shallow without_attrs kw st1)))"
proof -
  obtain res st1 where p: "pass_create_kws create_kws (st\<lparr>wld := w1\<rparr>) = (res, st1)"
    by (cases "pass_create_kws create_kws (st\<lparr>wld := w1\<rparr>)")
  from pass_create_kws_unchanged[OF p] have w: "wld st1 = w1" by simp
  show ?thesis
  proof (cases res)
    case (Inl e)
    with p w show ?thesis by (simp add: only_progress_refl)
  next
    case (Inr kw)
    obtain r2 st2 where c: "copy_impl lw source dest name True shallow without_attrs kw st1 = (r2, st2)"
      by (cases "copy_impl lw source dest name True shallow without_attrs kw st1")
    have "only_progress (wld st1) (wld st2)"
      by (rule log_steps_only_progress[OF conjunct1[OF copy_log_steps(1)[OF c]]])
    with p Inr c w show ?thesis by simp
  qed
qed

lemma copy_all_body_only_progress:
  "only_progress w1
     (wld (snd (copy_all_body lw source dest shallow without_attrs create_kws (st\<lparr>wld := w1\<rparr>))))"
proof (cases source)
  case (Array a)
  then show ?thesis by (simp add: only_progress_refl)
next
  case (Group g members)
  obtain r2 st2 where c: "copy_members lw members dest shallow without_attrs create_kws
       (st\<lparr>wld := w1\<rparr>) = (r2, st2)"
    by (cases "copy_members lw members dest shallow without_attrs create_kws (st\<lparr>wld := w1\<rparr>)")
  have "only_progress (wld (st\<lparr>wld := w1\<rparr>)) (wld st2)"
    by (rule log_steps_only_progress[OF conjunct1[OF copy_log_steps(2)[OF c]]])
  then have "only_progress w1 (wld st2)" by simp
  with Group c show ?thesis by simp
qed

text \<open>
  Claim C6. The progress writer keeps its resource discipline in every \<open>copy\<close> and
  \<open>copy_all\<close>, however the call ends. With a path as \<open>log\<close>, one file is opened when the
  writer is made, before anything else the call does, and that file is closed, once,
  as the last thing the call does, also when the body raised; nothing else is opened
  or closed. (A path that cannot be opened raises in the constructor: nothing is
  opened and nothing closed.) With a callable, a file object of the caller, or no
  \<open>log\<close>, the call opens nothing and closes nothing.
\<close>

theorem progress_sink_discipline:
  "log_discipline log (wld st)
     (wld (snd (copy source dest name shallow without_attrs log create_kws st)))
   \<and> log_discipline log (wld st)
     (wld (snd (copy_all source dest shallow without_attrs log create_kws st)))"
proof
  show "log_discipline log (wld st)
     (wld (snd (copy source dest name shallow without_attrs log create_kws st)))"
    unfolding copy_wld
    by (rule with_LogWriter_discipline) (rule copy_body_only_progress)
next
  show "log_discipline log (wld st)
     (wld (snd (copy_all source dest shallow without_attrs log create_kws st)))"
    unfolding copy_all_wld
    by (rule with_LogWriter_discipline) (rule copy_all_body_only_progress)
qed


text \<open>
  A copy that raises partway: the destination already holds \<open>/g/t\<close>, so the copy of
  \<open>/g\<close> stops at its member \<open>t\<close>, after two progress lines; the file is closed.
\<close>

theorem progress_sink_discipline_witness:
  "fst (copy zarr_g zarr_root None False False (LogPath ''log'') 0 state_with_t) = Some Conflict
   \<and> events (wld (snd (copy zarr_g zarr_root None False False (LogPath ''log'') 0 state_with_t)))
       = [EvOpen 3 ''log'',
          EvPrint (Opened 3 ''log'') ''/g -> /g'', EvFlush (Opened 3 ''log''),
          EvPrint (Opened 3 ''log'') ''/g/sub -> /g/sub'', EvFlush (Opened 3 ''log''),
          EvClose (Opened 3 ''log'')]
   \<and> log_discipline (LogPath ''log'') (wld state_with_t)
        (wld (snd (copy zarr_g zarr_root None False False (LogPath ''log'') 0 state_with_t)))"
proof -
  have a: "fst (copy zarr_g zarr_root None False False (LogPath ''log'') 0 state_with_t) = Some Conflict"
    by code_simp
  have b: "events (wld (snd (copy zarr_g zarr_root None False False (LogPath ''log'') 0 state_with_t)))
       = [EvOpen 3 ''log'',
          EvPrint (Opened 3 ''log'') ''/g -> /g'', EvFlush (Opened 3 ''log''),
          EvPrint (Opened 3 ''log'') ''/g/sub -> /g/sub'', EvFlush (Opened 3 ''log''),
          EvClose (Opened 3 ''log'')]"
    by code_simp
  note c = conjunct1[OF progress_sink_discipline[where log = "LogPath ''log''" and st = state_with_t
     and source = zarr_g and dest = zarr_root and name = None and shallow = False
     and without_attrs = False and create_kws = 0]]
  show ?thesis by (rule conjI[OF a conjI[OF b c]])
qed

text \<open>The loop of the flat copier touches the world by calls of the writer only.\<close>

lemma copy_store_loop_log_steps:
  "copy_store_loop env lw source dest sp dp ex inc ks stores w = (r, stores', w')
     \<Longrightarrow> (log_step lw)\<^sup>*\<^sup>* w w'"
proof (induction ks arbitrary: stores w)
  case Nil
  then show ?case by simp
next
  case (Cons K ks)
  show ?case
  proof (cases "startswith K sp \<and> \<not> process_excludes_includes env ex inc K")
    case False
    with Cons.prems have "copy_store_loop env lw source dest sp dp ex inc ks stores w = (r, stores', w')"
      by (auto split: if_splits)
    then show ?thesis by (rule Cons.IH)
  next
    case True
    obtain r1 w1 where l: "LogWriter_call lw (format_arrow K (dp @ drop (length sp) K)) w = (r1, w1)"
      by (cases "LogWriter_call lw (format_arrow K (dp @ drop (length sp) K)) w")
    then have s: "log_step lw w w1"
      unfolding log_step_def by (intro exI[of _ "format_arrow K (dp @ drop (length sp) K)"]) simp
    show ?thesis
    proof (cases r1)
      case (Some e)
      with Cons.prems True l have "w' = w1" by (simp add: Let_def)
      with s show ?thesis by auto
    next
      case None
      show ?thesis
      proof (cases "getitem (stores source) K")
        case (Inl e)
        with Cons.prems True l None have "w' = w1" by (simp add: Let_def)
        with s show ?thesis by auto
      next
        case (Inr v)
        with Cons.prems True l None
        have "copy_store_loop env lw source dest sp dp ex inc ks
                (stores(dest := setitem (stores dest) (dp @ drop (length sp) K) v)) w1
                = (r, stores', w')"
          by (simp add: Let_def)
        from Cons.IH[OF this] s show ?thesis by auto
      qed
    qed
  qed
qed

text \<open>\<open>copy_store\<close> keeps the discipline too, once its paths and patterns are accepted.\<close>

lemma copy_store_discipline:
  assumes sp: "normalize_storage_path env source_path = Inr sp"
    and dp: "normalize_storage_path env dest_path = Inr dp"
    and ex: "compile_all env (normalize_patterns excludes) flags = Inr ex"
    and inc: "compile_all env (normalize_patterns includes) flags = Inr inc"
  shows "log_discipline log w
           (snd (snd (copy_store env source dest source_path dest_path excludes includes flags log
                        stores w)))"
proof -
  have "snd (snd (copy_store env source dest source_path dest_path excludes includes flags log
                    stores w))
     = (case LogWriter_init log w of
          (Inl e, w1) \<Rightarrow> w1
        | (Inr lw, w1) \<Rightarrow>
            LogWriter_exit lw
              (snd (snd (copy_store_loop env lw source dest (add_separator sp) (add_separator dp)
                           ex inc (sort (keys (stores source))) stores w1))))"
    by (simp add: copy_store_def sp dp ex inc Let_def split: prod.splits sum.splits)
  moreover have "log_discipline log w
     (case LogWriter_init log w of
          (Inl e, w1) \<Rightarrow> w1
        | (Inr lw, w1) \<Rightarrow>
            LogWriter_exit lw
              (snd (snd (copy_store_loop env lw source dest (add_separator sp) (add_separator dp)
                           ex inc (sort (keys (stores source))) stores w1))))"
  proof (rule with_LogWriter_discipline)
    fix lw w1
    obtain r d' w' where l: "copy_store_loop env lw source dest (add_separator sp) (add_separator dp)
                           ex inc (sort (keys (stores source))) stores w1 = (r, d', w')"
      by (cases "copy_store_loop env lw source dest (add_separator sp) (add_separator dp)
                           ex inc (sort (keys (stores source))) stores w1")
    have "only_progress w1 w'"
      by (rule log_steps_only_progress[OF copy_store_loop_log_steps[OF l]])
    then show "only_progress w1 (snd (snd (copy_store_loop env lw source dest (add_separator sp)
        (add_separator dp) ex inc (sort (keys (stores source))) stores w1)))"
      by (simp add: l)
  qed
  ultimately show ?thesis by simp
qed

subsection \<open>The read-through view\<close>

lemma LazyLoader_getitem_cases:
  "LazyLoader_getitem G item v =
     (case map_of (cache v) item of
        Some arr \<Rightarrow> (Inr arr, v)
      | None \<Rightarrow>
          (case group_getitem G (grp v) item of
             Inl e \<Rightarrow> (Inl e, v\<lparr>reads := reads v @ [(item, False)]\<rparr>)
           | Inr m \<Rightarrow>
               (case getitem_ellipsis G m of
                  Inl e \<Rightarrow> (Inl e, v\<lparr>reads := reads v @ [(item, False)]\<rparr>)
                | Inr arr \<Rightarrow>
                    (Inr arr, v\<lparr>cache := setitem (cache v) item arr,
                                 reads := reads v @ [(item, True)]\<rparr>))))"
  by (simp add: LazyLoader_getitem_def getitem_def split: option.splits)

lemma map_of_None_keys: "map_of d k = None \<longleftrightarrow> k \<notin> set (keys d)"
  by (simp add: keys_def map_of_eq_None_iff)

lemma getitem_step_inv:
  assumes "view_inv v"
  shows "view_inv (snd (LazyLoader_getitem G item v))"
proof (cases "map_of (cache v) item")
  case (Some arr)
  with assms show ?thesis by (simp add: LazyLoader_getitem_cases)
next
  case None
  then have nk: "item \<notin> set (keys (cache v))" by (simp add: map_of_None_keys)
  show ?thesis
  proof (cases "group_getitem G (grp v) item")
    case (Inl e)
    with None assms show ?thesis
      by (simp add: LazyLoader_getitem_cases view_inv_def fetches_returned_def)
  next
    case (Inr m)
    note m = this
    show ?thesis
    proof (cases "getitem_ellipsis G m")
      case (Inl e)
      with m None assms show ?thesis
        by (simp add: LazyLoader_getitem_cases view_inv_def fetches_returned_def)
    next
      case (Inr arr)
      with m None assms nk show ?thesis
        by (auto simp: LazyLoader_getitem_cases view_inv_def fetches_returned_def keys_setitem)
    qed
  qed
qed

lemma snd_view_step_Get: "snd (view_step G (Get item) v) = snd (LazyLoader_getitem G item v)"
  by (simp split: prod.splits)

lemma fst_view_step_Get: "fst (view_step G (Get item) v) = GotItem (fst (LazyLoader_getitem G item v))"
  by (simp split: prod.splits)

lemma snd_view_run_Cons:
  "snd (view_run G (op # ops) v) = snd (view_run G ops (snd (view_step G op v)))"
  by (simp split: prod.splits)

lemma fst_view_run_Cons:
  "fst (view_run G (op # ops) v)
     = fst (view_step G op v) # fst (view_run G ops (snd (view_step G op v)))"
  by (simp split: prod.splits)

lemma view_step_inv: "view_inv v \<Longrightarrow> view_inv (snd (view_step G op v))"
proof (cases op)
  case (Get item)
  assume "view_inv v"
  from getitem_step_inv[OF this, of G item] Get show ?thesis
    by (simp only: snd_view_step_Get)
next
  case Len
  assume "view_inv v" with Len show ?thesis by simp
next
  case Iter
  assume "view_inv v" with Iter show ?thesis by simp
next
  case (Contains item)
  assume "view_inv v" with Contains show ?thesis by simp
next
  case (GroupChanged g)
  assume "view_inv v" with GroupChanged show ?thesis
    by (simp add: view_inv_def fetches_returned_def)
qed

lemma view_run_inv: "view_inv v \<Longrightarrow> view_inv (snd (view_run G ops v))"
proof (induction ops arbitrary: v)
  case Nil
  then show ?case by simp
next
  case (Cons op ops)
  from Cons.IH[OF view_step_inv[OF Cons.prems, of G op]] show ?case
    by (simp only: snd_view_run_Cons)
qed

lemma view_inv_init: "view_inv (LazyLoader_init g)"
  by (simp add: view_inv_def fetches_returned_def LazyLoader_init_def keys_def)

lemma getitem_cached:
  "map_of (cache v) item = Some arr \<Longrightarrow> LazyLoader_getitem G item v = (Inr arr, v)"
  by (simp add: LazyLoader_getitem_cases)

lemma getitem_caches:
  "LazyLoader_getitem G item v = (Inr arr, v') \<Longrightarrow> map_of (cache v') item = Some arr"
  by (auto simp: LazyLoader_getitem_cases map_of_setitem split: option.splits sum.splits)

lemma view_step_keeps_cached:
  "map_of (cache v) item = Some arr \<Longrightarrow> map_of (cache (snd (view_step G op v))) item = Some arr"
proof (cases op)
  case (Get item')
  assume a: "map_of (cache v) item = Some arr"
  then show ?thesis
    unfolding Get snd_view_step_Get
    by (auto simp: LazyLoader_getitem_cases map_of_setitem split: option.splits sum.splits)
qed simp_all

lemma view_run_keeps_cached:
  "map_of (cache v) item = Some arr \<Longrightarrow> map_of (cache (snd (view_run G ops v))) item = Some arr"
proof (induction ops arbitrary: v)
  case Nil
  then show ?case by simp
next
  case (Cons op ops)
  from Cons.IH[OF view_step_keeps_cached[OF Cons.prems, of G op]] show ?case
    by (simp only: snd_view_run_Cons)
qed

text \<open>Once a key is in the cache, no operation reads the group at it.\<close>

lemma view_step_cached_no_read:
  "map_of (cache v) item = Some arr \<Longrightarrow> fetches item (snd (view_step G op v)) = fetches item v"
proof (cases op)
  case (Get item')
  assume a: "map_of (cache v) item = Some arr"
  then show ?thesis
    unfolding Get snd_view_step_Get
    by (auto simp: LazyLoader_getitem_cases fetches_def split: option.splits sum.splits)
qed (simp_all add: fetches_def)

lemma view_run_cached_no_read:
  "map_of (cache v) item = Some arr \<Longrightarrow> fetches item (snd (view_run G ops v)) = fetches item v"
proof (induction ops arbitrary: v)
  case Nil
  then show ?case by simp
next
  case (Cons op ops)
  from Cons.IH[OF view_step_keeps_cached[OF Cons.prems, of G op]]
       view_step_cached_no_read[OF Cons.prems, of G op]
  show ?case
    by (simp only: snd_view_run_Cons)
qed

text \<open>Every read of the group at a key either returned or made the \<open>view[item]\<close> raise.\<close>

lemma getitem_counts:
  "fetches item (snd (LazyLoader_getitem G k v)) + fetches_returned item v
     = fetches item v + (if k = item \<and> raised (GotItem (fst (LazyLoader_getitem G k v))) then 1 else 0)
       + fetches_returned item (snd (LazyLoader_getitem G k v))"
  by (auto simp: LazyLoader_getitem_cases fetches_def fetches_returned_def
           split: option.splits sum.splits)

lemma view_step_counts:
  "fetches item (snd (view_step G op v)) + fetches_returned item v
     = fetches item v + raised_gets item [op] [fst (view_step G op v)]
       + fetches_returned item (snd (view_step G op v))"
proof (cases op)
  case (Get k)
  show ?thesis
    unfolding Get snd_view_step_Get fst_view_step_Get
    using getitem_counts[of item G k v] by simp
qed (simp_all add: fetches_def fetches_returned_def)

lemma raised_gets_Cons:
  "raised_gets item (op # ops) (r # rs) = raised_gets item [op] [r] + raised_gets item ops rs"
  by (cases op) simp_all

lemma view_run_counts:
  "fetches item (snd (view_run G ops v)) + fetches_returned item v
     = fetches item v + raised_gets item ops (fst (view_run G ops v))
       + fetches_returned item (snd (view_run G ops v))"
proof (induction ops arbitrary: v)
  case Nil
  show ?case by simp
next
  case (Cons op ops)
  note r = raised_gets_Cons[of item op ops "fst (view_step G op v)"
              "fst (view_run G ops (snd (view_step G op v)))"]
  from Cons.IH[of "snd (view_step G op v)"] view_step_counts[of item G op v] r
  show ?case
    unfolding snd_view_run_Cons fst_view_run_Cons by linarith
qed

text \<open>
  Claim C8, as the code has it. Over every sequence of operations on one view, with
  the group changing in between or not: the contents of each key are had from the
  group at most once, and the reads of the group at a key are that one and one for
  every \<open>view[item]\<close> that raised; once \<open>view[item]\<close> has returned an array, every later
  \<open>view[item]\<close> returns that array from the cache and leaves the view as it is, and no
  operation reads the group at that key again; a \<open>view[item]\<close> that raises leaves the
  cache as it was; and \<open>len\<close>, iteration and membership are what the group gives for
  them now, whatever the cache holds.
\<close>

theorem lazy_view_reads_once:
  "fetches_returned item (snd (view_run G ops (LazyLoader_init g))) \<le> 1
   \<and> fetches item (snd (view_run G ops (LazyLoader_init g)))
       = raised_gets item ops (fst (view_run G ops (LazyLoader_init g)))
         + fetches_returned item (snd (view_run G ops (LazyLoader_init g)))
   \<and> (fst (LazyLoader_getitem G item v) = Inr arr \<longrightarrow>
        LazyLoader_getitem G item (snd (view_run G ops (snd (LazyLoader_getitem G item v))))
          = (Inr arr, snd (view_run G ops (snd (LazyLoader_getitem G item v))))
        \<and> fetches item (snd (view_run G ops (snd (LazyLoader_getitem G item v))))
          = fetches item (snd (LazyLoader_getitem G item v)))
   \<and> (fst (LazyLoader_getitem G item v) = Inl e \<longrightarrow>
        cache (snd (LazyLoader_getitem G item v)) = cache v)
   \<and> view_step G Len v = (GotLen (group_len G (grp v)), v)
   \<and> view_step G Iter v = (GotKeys (group_iter G (grp v)), v)
   \<and> view_step G (Contains item) v = (GotBool (group_contains G (grp v) item), v)
   \<and> fst (view_step G Len (v\<lparr>cache := c\<rparr>)) = fst (view_step G Len v)
   \<and> fst (view_step G Iter (v\<lparr>cache := c\<rparr>)) = fst (view_step G Iter v)
   \<and> fst (view_step G (Contains item) (v\<lparr>cache := c\<rparr>)) = fst (view_step G (Contains item) v)"
proof (intro conjI impI)
  have "view_inv (snd (view_run G ops (LazyLoader_init g)))"
    by (rule view_run_inv[OF view_inv_init])
  then show "fetches_returned item (snd (view_run G ops (LazyLoader_init g))) \<le> 1"
    by (simp add: view_inv_def)
next
  from view_run_counts[of item G ops "LazyLoader_init g"]
  show "fetches item (snd (view_run G ops (LazyLoader_init g)))
       = raised_gets item ops (fst (view_run G ops (LazyLoader_init g)))
         + fetches_returned item (snd (view_run G ops (LazyLoader_init g)))"
    by (simp add: fetches_def fetches_returned_def LazyLoader_init_def)
next
  assume a: "fst (LazyLoader_getitem G item v) = Inr arr"
  have "LazyLoader_getitem G item v = (Inr arr, snd (LazyLoader_getitem G item v))"
    using a by (simp add: prod_eq_iff)
  from getitem_caches[OF this]
  have m: "map_of (cache (snd (LazyLoader_getitem G item v))) item = Some arr" .
  from view_run_keeps_cached[OF m]
  have "map_of (cache (snd (view_run G ops (snd (LazyLoader_getitem G item v))))) item = Some arr" .
  then show "LazyLoader_getitem G item (snd (view_run G ops (snd (LazyLoader_getitem G item v))))
          = (Inr arr, snd (view_run G ops (snd (LazyLoader_getitem G item v))))"
    by (rule getitem_cached)
  show "fetches item (snd (view_run G ops (snd (LazyLoader_getitem G item v))))
          = fetches item (snd (LazyLoader_getitem G item v))"
    by (rule view_run_cached_no_read[OF m])
next
  assume "fst (LazyLoader_getitem G item v) = Inl e"
  then show "cache (snd (LazyLoader_getitem G item v)) = cache v"
    by (auto simp: LazyLoader_getitem_cases split: option.splits sum.splits)
qed (simp_all add: LazyLoader_len_def LazyLoader_iter_def LazyLoader_contains_def)

text \<open>
  On a view of a group that holds the array \<open>t\<close>: \<open>view['t']\<close> returns its contents; then
  the group is emptied, \<open>len\<close> gives 0, \<open>view['missing']\<close> raises and \<open>view['t']\<close> still
  returns the contents, with one read of the group at \<open>t\<close> in all.
\<close>

theorem lazy_view_reads_once_witness:
  "fst (LazyLoader_getitem dict_group ''t'' (LazyLoader_init view_grp)) = Inr [1, 2, 3]
   \<and> LazyLoader_getitem dict_group ''t''
        (snd (view_run dict_group view_ops
               (snd (LazyLoader_getitem dict_group ''t'' (LazyLoader_init view_grp)))))
      = (Inr [1, 2, 3],
         snd (view_run dict_group view_ops
               (snd (LazyLoader_getitem dict_group ''t'' (LazyLoader_init view_grp)))))
   \<and> fetches ''t'' (snd (view_run dict_group view_ops
               (snd (LazyLoader_getitem dict_group ''t'' (LazyLoader_init view_grp)))))
      = fetches ''t'' (snd (LazyLoader_getitem dict_group ''t'' (LazyLoader_init view_grp)))
   \<and> fst (view_run dict_group view_ops
               (snd (LazyLoader_getitem dict_group ''t'' (LazyLoader_init view_grp))))
      = [NoResult, GotLen (Inr 0), GotItem (Inl KeyError), GotItem (Inr [1, 2, 3])]
   \<and> reads (snd (view_run dict_group view_ops
               (snd (LazyLoader_getitem dict_group ''t'' (LazyLoader_init view_grp)))))
      = [(''t'', True), (''missing'', False)]"
proof -
  have h: "fst (LazyLoader_getitem dict_group ''t'' (LazyLoader_init view_grp)) = Inr [1, 2, 3]"
    by code_simp
  note t = lazy_view_reads_once[where item = "''t''" and v = "LazyLoader_init view_grp"
     and arr = "[1, 2, 3]" and ops = view_ops and G = dict_group]
  note c = mp[OF conjunct1[OF conjunct2[OF conjunct2[OF t]]] h]
  have r: "fst (view_run dict_group view_ops
               (snd (LazyLoader_getitem dict_group ''t'' (LazyLoader_init view_grp))))
      = [NoResult, GotLen (Inr 0), GotItem (Inl KeyError), GotItem (Inr [1, 2, 3])]"
    by code_simp
  have d: "reads (snd (view_run dict_group view_ops
               (snd (LazyLoader_getitem dict_group ''t'' (LazyLoader_init view_grp)))))
      = [(''t'', True), (''missing'', False)]"
    by code_simp
  show ?thesis
    by (rule conjI[OF h conjI[OF conjunct1[OF c] conjI[OF conjunct2[OF c] conjI[OF r d]]]])
qed

text \<open>
  The claim as written does not hold of a key at which the read raises: nothing is
  stored in the cache, so every \<open>view[item]\<close> of that key reads the group again. Two
  \<open>view['missing']\<close> on a view of a group without \<open>missing\<close> both raise \<open>KeyError\<close>, read
  the group twice at that key and leave the cache empty.
\<close>

theorem lazy_view_missing_key_counterexample:
  "fst (view_run dict_group [Get ''missing'', Get ''missing''] (LazyLoader_init view_grp))
     = [GotItem (Inl KeyError), GotItem (Inl KeyError)]
   \<and> fetches ''missing''
        (snd (view_run dict_group [Get ''missing'', Get ''missing''] (LazyLoader_init view_grp))) = 2
   \<and> \<not> fetches ''missing''
        (snd (view_run dict_group [Get ''missing'', Get ''missing''] (LazyLoader_init view_grp))) \<le> 1
   \<and> cache (snd (view_run dict_group [Get ''missing'', Get ''missing''] (LazyLoader_init view_grp)))
     = []"
  by code_simp

subsection \<open>\<open>load\<close>\<close>

text \<open>
  Claim C9. On a store that holds neither an array nor a group at the root, \<open>load\<close>
  returns \<open>None\<close>; and \<open>load\<close> raises nothing of its own: an exception of \<open>load\<close> is one
  that \<open>normalize_store_arg\<close>, the read of the array or the opening of the group raised.
\<close>

theorem load_nothing_returns_None:
  "(normalize_store_arg sto store0 = Inr store \<and> \<not> contains_array sto store \<and>
      \<not> contains_group sto store \<longrightarrow> load sto store0 = Inr LoadedNone)
   \<and> (load sto store0 = Inl e \<longrightarrow>
        normalize_store_arg sto store0 = Inl e \<or>
        (\<exists>s. normalize_store_arg sto store0 = Inr s \<and>
             (array_read sto s = Inl e \<or> group_open sto s = Inl e)))"
  by (auto simp: load_def split: sum.splits if_splits)

theorem load_nothing_returns_None_witness:
  "normalize_store_arg dict_storage [(''data'', ''x'')] = Inr [(''data'', ''x'')]
   \<and> \<not> contains_array dict_storage [(''data'', ''x'')]
   \<and> \<not> contains_group dict_storage [(''data'', ''x'')]
   \<and> load dict_storage [(''data'', ''x'')] = Inr LoadedNone"
proof -
  have a: "normalize_store_arg dict_storage [(''data'', ''x'')] = Inr [(''data'', ''x'')]"
    by code_simp
  have b: "\<not> contains_array dict_storage [(''data'', ''x'')]" by code_simp
  have c: "\<not> contains_group dict_storage [(''data'', ''x'')]" by code_simp
  note t = conjunct1[OF load_nothing_returns_None[where sto = dict_storage
     and ?store0.0 = "[(''data'', ''x'')]" and store = "[(''data'', ''x'')]"]]
  note d = mp[OF t conjI[OF a conjI[OF b c]]]
  show ?thesis by (rule conjI[OF a conjI[OF b conjI[OF c d]]])
qed

end
